theory Spec2Isabelle
  imports Main
begin

section \<open>Quota guard (quota.py)\<close>

text \<open>
  The module keeps two counters: a Redis key \<open>quota:<user_id>\<close> when a Redis client
  was configured, and the process-local dictionary \<open>_local_quota\<close>. Both are part of
  the state that \<open>check_and_debit_user_quota\<close> threads through. Every access to either
  counter is recorded in an access log, so that "no counter was read" can be stated.

  The environment fixes \<open>DEFAULT_QUOTA\<close> (read from \<open>USER_QUOTA_DEFAULT\<close>), whether
  \<open>_redis_client\<close> is not \<open>None\<close>, and which of the three Redis calls raise; a call that
  raises has no effect on the Redis store.

  The script of the \<open>eval\<close> call runs inside the Redis server, whose arithmetic is not
  that of the integers: Lua numbers are doubles, and \<open>DECRBY\<close> works on 64-bit
  integers and refuses what does not fit. The three operations the script uses are
  therefore taken from the environment. \<open>lua_less a b\<close> is what Lua makes of
  \<open>tonumber(a) < tonumber(b)\<close> for the decimal strings of \<open>a\<close> and \<open>b\<close>;
  \<open>lua_minus a b\<close> is the integer Redis replies for \<open>tonumber(a) - tonumber(b)\<close>;
  \<open>redis_decrby v c\<close> is the value \<open>DECRBY\<close> stores for the stored value \<open>v\<close>
  (\<open>None\<close>: no such key) and the decrement \<open>c\<close>, or \<open>None\<close> when Redis refuses
  the command, which makes the script, and with it the \<open>eval\<close> call, fail.
\<close>

datatype redis_call = RedisExists | RedisSet | RedisEval

datatype quota_access =
    AccRedisExists string
  | AccRedisSet string int
  | AccRedisEval string int
  | AccLocalGet string
  | AccLocalSet string int

record quota_env =
  DEFAULT_QUOTA :: int
  redis_client :: bool
  redis_raises :: "redis_call \<Rightarrow> bool"
  lua_less :: "int \<Rightarrow> int \<Rightarrow> bool"
  lua_minus :: "int \<Rightarrow> int \<Rightarrow> int"
  redis_decrby :: "int option \<Rightarrow> int \<Rightarrow> int option"

record quota_state =
  redis_store :: "string \<rightharpoonup> int"
  local_quota :: "string \<rightharpoonup> int"

text \<open>Python's \<open>not user_id\<close>: true for \<open>None\<close> and for the empty string.\<close>

definition falsy_str :: "string option \<Rightarrow> bool" where
  "falsy_str u = (case u of None \<Rightarrow> True | Some s \<Rightarrow> s = [])"

definition quota_key :: "string \<Rightarrow> string" where
  "quota_key user_id = ''quota:'' @ user_id"

text \<open>
  The Lua script: \<open>val = tonumber(GET key or '-1')\<close>; if \<open>val < tonumber(cost)\<close>
  return \<open>-1\<close>; otherwise \<open>DECRBY key cost\<close> and return \<open>val - tonumber(cost)\<close>.
  The result is the reply and the new store, or \<open>None\<close> when \<open>DECRBY\<close> fails.
\<close>

definition quota_script ::
  "quota_env \<Rightarrow> (string \<rightharpoonup> int) \<Rightarrow> string \<Rightarrow> int \<Rightarrow> (int \<times> (string \<rightharpoonup> int)) option" where
  "quota_script env r key cost =
     (let val = (case r key of None \<Rightarrow> - 1 | Some v \<Rightarrow> v) in
      if lua_less env val cost then Some (- 1, r)
      else
        case redis_decrby env (r key) cost of
          None \<Rightarrow> None
        | Some v' \<Rightarrow> Some (lua_minus env val cost, r(key \<mapsto> v')))"

text \<open>The in-memory fallback of \<open>check_and_debit_user_quota\<close> (the second \<open>try\<close> block).\<close>

definition local_debit ::
  "quota_env \<Rightarrow> string \<Rightarrow> int \<Rightarrow> quota_state \<Rightarrow> quota_access list
     \<Rightarrow> bool \<times> quota_state \<times> quota_access list" where
  "local_debit env user_id cost st log =
     (case local_quota st user_id of
        None \<Rightarrow>
          (True,
           st\<lparr>local_quota := (local_quota st)(user_id \<mapsto> DEFAULT_QUOTA env - cost)\<rparr>,
           log @ [AccLocalGet user_id, AccLocalSet user_id (DEFAULT_QUOTA env - cost)])
      | Some entry \<Rightarrow>
          if entry < cost then (False, st, log @ [AccLocalGet user_id])
          else (True,
                st\<lparr>local_quota := (local_quota st)(user_id \<mapsto> entry - cost)\<rparr>,
                log @ [AccLocalGet user_id, AccLocalSet user_id (entry - cost)]))"

text \<open>
  The Redis block. \<open>None\<close> stands for an exception inside the \<open>try\<close>: the handler logs
  a warning and control falls through to the in-memory fallback, with whatever the Redis
  calls before the failing one have already done.
\<close>

definition redis_debit ::
  "quota_env \<Rightarrow> string \<Rightarrow> int \<Rightarrow> quota_state
     \<Rightarrow> bool option \<times> quota_state \<times> quota_access list" where
  "redis_debit env user_id cost st =
     (let key = quota_key user_id in
      if redis_raises env RedisExists then (None, st, [])
      else
        let exists = (redis_store st key \<noteq> None);
            log1 = [AccRedisExists key] in
        if \<not> exists \<and> redis_raises env RedisSet then (None, st, log1)
        else
          let st1 = (if exists then st
                     else st\<lparr>redis_store := (redis_store st)(key \<mapsto> DEFAULT_QUOTA env)\<rparr>);
              log2 = (if exists then log1 else log1 @ [AccRedisSet key (DEFAULT_QUOTA env)]) in
          if redis_raises env RedisEval then (None, st1, log2)
          else
            case quota_script env (redis_store st1) key cost of
              None \<Rightarrow> (None, st1, log2 @ [AccRedisEval key cost])
            | Some (res, r') \<Rightarrow>
                (Some (res \<ge> 0), st1\<lparr>redis_store := r'\<rparr>, log2 @ [AccRedisEval key cost]))"

definition check_and_debit_user_quota ::
  "quota_env \<Rightarrow> string option \<Rightarrow> int \<Rightarrow> quota_state
     \<Rightarrow> bool \<times> quota_state \<times> quota_access list" where
  "check_and_debit_user_quota env user_id cost st =
     (if falsy_str user_id then (True, st, [])
      else
        let uid = the user_id in
        if redis_client env then
          (case redis_debit env uid cost st of
             (Some allowed, st', log) \<Rightarrow> (allowed, st', log)
           | (None, st', log) \<Rightarrow> local_debit env uid cost st' log)
        else local_debit env uid cost st [])"

text \<open>
  The balance the in-memory counter holds for a user, as \<open>get_remaining_quota\<close> reads it:
  \<open>_local_quota.get(user_id, DEFAULT_QUOTA)\<close>.
\<close>

definition local_remaining :: "quota_env \<Rightarrow> quota_state \<Rightarrow> string \<Rightarrow> int" where
  "local_remaining env st user_id =
     (case local_quota st user_id of None \<Rightarrow> DEFAULT_QUOTA env | Some v \<Rightarrow> v)"

text \<open>
  A process without a Redis client: the Redis operations are never consulted, and are
  filled in with those of the integers.
\<close>

definition no_redis :: "int \<Rightarrow> quota_env" where
  "no_redis d =
     \<lparr>DEFAULT_QUOTA = d, redis_client = False, redis_raises = (\<lambda>_. False),
      lua_less = (<), lua_minus = (-),
      redis_decrby = (\<lambda>v c. Some ((case v of None \<Rightarrow> 0 | Some x \<Rightarrow> x) - c))\<rparr>"

definition empty_quota :: quota_state where
  "empty_quota = \<lparr>redis_store = Map.empty, local_quota = Map.empty\<rparr>"

subsection \<open>Properties of the quota guard\<close>

lemma local_debit_known_user:
  assumes "local_quota st u = Some entry"
  shows "local_debit env u cost st log =
           (if entry < cost then (False, st, log @ [AccLocalGet u])
            else (True, st\<lparr>local_quota := (local_quota st)(u \<mapsto> entry - cost)\<rparr>,
                  log @ [AccLocalGet u, AccLocalSet u (entry - cost)]))"
  using assms by (simp add: local_debit_def)

text \<open>
  Where the balance is compared with the cost: on the Redis path, whose script starts from
  the default for a new user, as long as the server's arithmetic is exact on the balance
  and the cost; and on the in-memory path for a user it already knows.
\<close>

lemma redis_path_checks_balance:
  fixes st :: quota_state
  assumes "redis_client env" and "\<And>c. \<not> redis_raises env c" and "uid \<noteq> []"
  defines "v \<equiv> (case redis_store st (quota_key uid) of None \<Rightarrow> DEFAULT_QUOTA env | Some b \<Rightarrow> b)"
  assumes exact: "lua_less env v cost = (v < cost)" "lua_minus env v cost = v - cost"
    "redis_decrby env (Some v) cost = Some (v - cost)"
  shows "fst (check_and_debit_user_quota env (Some uid) cost st) = (cost \<le> v)"
    and "redis_store (fst (snd (check_and_debit_user_quota env (Some uid) cost st))) (quota_key uid)
           = Some (if v < cost then v else v - cost)"
    and "local_quota (fst (snd (check_and_debit_user_quota env (Some uid) cost st))) = local_quota st"
  using assms(1-3) exact unfolding v_def
  by (auto simp: check_and_debit_user_quota_def falsy_str_def redis_debit_def quota_script_def
      Let_def split: option.splits)

lemma local_path_known_user:
  assumes "\<not> redis_client env" and "uid \<noteq> []" and "local_quota st uid = Some b"
  shows "fst (check_and_debit_user_quota env (Some uid) cost st) = (cost \<le> b)"
    and "local_quota (fst (snd (check_and_debit_user_quota env (Some uid) cost st))) uid
           = Some (if b < cost then b else b - cost)"
  using assms
  by (auto simp: check_and_debit_user_quota_def falsy_str_def local_debit_def)

text \<open>
  C10. A call with a missing (\<open>None\<close>) or empty user id returns \<open>True\<close>, leaves both
  the Redis store and the process-local dictionary as they were, and touches neither
  counter: the access log is empty.
\<close>

theorem C10_anonymous_user_not_debited:
  "check_and_debit_user_quota env None cost st = (True, st, []) \<and>
   check_and_debit_user_quota env (Some []) cost st = (True, st, [])"
  by (simp add: check_and_debit_user_quota_def falsy_str_def)

text \<open>
  C7. With no Redis client, the default quota of 100 and a user the process has not seen
  yet, a request of cost 101 exceeds the remaining balance of 100, yet the call returns
  \<open>True\<close> and stores the balance \<open>-1\<close>. The same happens for the cost 1 that the callers
  use when \<open>USER_QUOTA_DEFAULT\<close> is \<open>0\<close>.
\<close>

theorem C7_first_call_skips_balance_check:
  "local_remaining (no_redis 100) empty_quota ''u1'' < 101 \<and>
   fst (check_and_debit_user_quota (no_redis 100) (Some ''u1'') 101 empty_quota) = True \<and>
   local_quota (fst (snd (check_and_debit_user_quota (no_redis 100) (Some ''u1'') 101 empty_quota)))
     ''u1'' = Some (- 1) \<and>
   local_remaining (no_redis 0) empty_quota ''u1'' < 1 \<and>
   fst (check_and_debit_user_quota (no_redis 0) (Some ''u1'') 1 empty_quota) = True \<and>
   local_quota (fst (snd (check_and_debit_user_quota (no_redis 0) (Some ''u1'') 1 empty_quota)))
     ''u1'' = Some (- 1)"
  by (simp add: check_and_debit_user_quota_def falsy_str_def local_debit_def
        local_remaining_def no_redis_def empty_quota_def Let_def)


section \<open>Collaboration session roster (models/collaboration_models.py)\<close>

text \<open>
  \<open>datetime.utcnow()\<close> is an input of the model: every operation that reads the clock
  takes the current time \<open>now\<close>. The methods end with \<open>await self.save()\<close>; here they
  return the updated document, and the callers write it back to the store. An exception
  is raised before the document is touched, so \<open>Inl\<close> carries no document.
\<close>

datatype py_error = KeyError | ValueError string

datatype ParticipantRole = VIEWER | EDITOR | ADMIN

record SessionParticipant =
  user_id :: string
  username :: string
  role :: ParticipantRole
  joined_at :: nat
  last_activity :: nat
  is_active :: bool

record CollaborationSession =
  host_user_id :: string
  name :: string
  session_code :: string
  session_is_active :: bool
  max_participants :: int
  participants :: "SessionParticipant list"
  shared_code :: "string option"
  created_at :: nat
  ended_at :: "nat option"
  session_last_activity :: nat

definition new_participant :: "string \<Rightarrow> string \<Rightarrow> ParticipantRole \<Rightarrow> nat \<Rightarrow> SessionParticipant" where
  "new_participant uid uname r now =
     \<lparr>user_id = uid, username = uname, role = r, joined_at = now, last_activity = now,
      is_active = True\<rparr>"

text \<open>
  The \<open>for participant in self.participants\<close> loop of \<open>add_participant\<close>: the first
  entry with the user id is reactivated and its last-activity time refreshed; \<open>None\<close>
  when the loop ends without a match.
\<close>

fun reactivate :: "string \<Rightarrow> nat \<Rightarrow> SessionParticipant list \<Rightarrow> SessionParticipant list option" where
  "reactivate uid now [] = None"
| "reactivate uid now (p # ps) =
     (if user_id p = uid then Some (p\<lparr>is_active := True, last_activity := now\<rparr> # ps)
      else map_option ((#) p) (reactivate uid now ps))"

definition capacity_error :: py_error where
  "capacity_error = ValueError ''Session is at maximum capacity''"

definition add_participant ::
  "CollaborationSession \<Rightarrow> string \<Rightarrow> string \<Rightarrow> ParticipantRole \<Rightarrow> nat
     \<Rightarrow> py_error + CollaborationSession" where
  "add_participant s uid uname r now =
     (if int (length (participants s)) \<ge> max_participants s then Inl capacity_error
      else
        case reactivate uid now (participants s) of
          Some ps \<Rightarrow> Inr (s\<lparr>participants := ps\<rparr>)
        | None \<Rightarrow>
            Inr (s\<lparr>participants := participants s @ [new_participant uid uname r now],
                   session_last_activity := now\<rparr>))"

definition remove_participant :: "CollaborationSession \<Rightarrow> string \<Rightarrow> nat \<Rightarrow> CollaborationSession" where
  "remove_participant s uid now =
     s\<lparr>participants := filter (\<lambda>p. user_id p \<noteq> uid) (participants s),
       session_last_activity := now\<rparr>"

definition end_session :: "CollaborationSession \<Rightarrow> nat \<Rightarrow> CollaborationSession" where
  "end_session s now = s\<lparr>session_is_active := False, ended_at := Some now\<rparr>"

definition get_active_participants :: "CollaborationSession \<Rightarrow> SessionParticipant list" where
  "get_active_participants s = filter is_active (participants s)"

definition get_participant_count :: "CollaborationSession \<Rightarrow> nat" where
  "get_participant_count s = length (get_active_participants s)"

text \<open>
  A sequence of roster operations on one session document. A rejected
  \<open>add_participant\<close> raises before it changes anything, so the document stays as it was.
\<close>

datatype roster_op =
    AddParticipant string string ParticipantRole nat
  | RemoveParticipant string nat

fun apply_roster_op :: "CollaborationSession \<Rightarrow> roster_op \<Rightarrow> CollaborationSession" where
  "apply_roster_op s (AddParticipant uid uname r now) =
     (case add_participant s uid uname r now of Inl e \<Rightarrow> s | Inr s' \<Rightarrow> s')"
| "apply_roster_op s (RemoveParticipant uid now) = remove_participant s uid now"

definition run_roster_ops :: "CollaborationSession \<Rightarrow> roster_op list \<Rightarrow> CollaborationSession" where
  "run_roster_ops s ops = foldl apply_roster_op s ops"

text \<open>The active entries a session holds for one user id.\<close>

definition active_entries :: "CollaborationSession \<Rightarrow> string \<Rightarrow> SessionParticipant list" where
  "active_entries s uid = filter (\<lambda>p. user_id p = uid \<and> is_active p) (participants s)"

text \<open>The session document as the constructor leaves it, with an empty participant list.\<close>

definition fresh_session :: "string \<Rightarrow> string \<Rightarrow> string \<Rightarrow> int \<Rightarrow> nat \<Rightarrow> CollaborationSession" where
  "fresh_session host nm code cap now =
     \<lparr>host_user_id = host, name = nm, session_code = code, session_is_active = True,
      max_participants = cap, participants = [], shared_code = None, created_at = now,
      ended_at = None, session_last_activity = now\<rparr>"


text \<open>
  What the claim "adding a user id that is already present reactivates the existing
  entry" says of one call: the call succeeds, appends nothing, and the user's only active
  entry is the old one with the active flag set and the last-activity time refreshed.
\<close>

definition rejoin_reactivates ::
  "CollaborationSession \<Rightarrow> string \<Rightarrow> string \<Rightarrow> ParticipantRole \<Rightarrow> nat \<Rightarrow> bool" where
  "rejoin_reactivates s uid uname r now =
     (case add_participant s uid uname r now of
        Inl e \<Rightarrow> False
      | Inr s' \<Rightarrow>
          length (participants s') = length (participants s) \<and>
          (\<exists>p \<in> set (participants s). user_id p = uid \<and>
             active_entries s' uid = [p\<lparr>is_active := True, last_activity := now\<rparr>]))"

text \<open>A session of capacity 2 that two users have joined.\<close>

definition two_of_two :: CollaborationSession where
  "two_of_two =
     run_roster_ops (fresh_session ''ann'' ''Standup'' ''AB12CD34'' 2 0)
       [AddParticipant ''ann'' ''Ann'' ADMIN 1, AddParticipant ''bob'' ''Bob'' EDITOR 2]"

text \<open>The same two users in a session of capacity 3.\<close>

definition two_of_three :: CollaborationSession where
  "two_of_three =
     run_roster_ops (fresh_session ''ann'' ''Standup'' ''AB12CD34'' 3 0)
       [AddParticipant ''ann'' ''Ann'' ADMIN 1, AddParticipant ''bob'' ''Bob'' EDITOR 2]"

subsection \<open>Properties of the roster\<close>

lemma reactivate_None_iff: "reactivate uid now ps = None \<longleftrightarrow> uid \<notin> user_id ` set ps"
  by (induction ps) auto

lemma reactivate_ids:
  "reactivate uid now ps = Some ps' \<Longrightarrow> map user_id ps' = map user_id ps"
  by (induction ps arbitrary: ps') (auto split: if_splits)

lemma reactivate_length:
  "reactivate uid now ps = Some ps' \<Longrightarrow> length ps' = length ps"
  using reactivate_ids [of uid now ps ps'] by (metis length_map)

lemma max_participants_add:
  "add_participant s uid uname r now = Inr s' \<Longrightarrow> max_participants s' = max_participants s"
  by (auto simp: add_participant_def split: if_splits option.splits)

lemma add_participant_within_capacity:
  "add_participant s uid uname r now = Inr s' \<Longrightarrow>
     int (length (participants s')) \<le> max_participants s'"
  by (auto simp: add_participant_def split: if_splits option.splits dest: reactivate_length)

lemma active_le_all: "length (get_active_participants s) \<le> length (participants s)"
  by (simp add: get_active_participants_def)

lemma active_bounded_step:
  assumes "int (length (get_active_participants s)) \<le> max_participants s"
  shows "int (length (get_active_participants (apply_roster_op s op)))
           \<le> max_participants (apply_roster_op s op)"
proof (cases op)
  case (AddParticipant uid uname r now)
  show ?thesis
  proof (cases "add_participant s uid uname r now")
    case (Inl e)
    with AddParticipant assms show ?thesis by simp
  next
    case (Inr s')
    have "int (length (get_active_participants s')) \<le> int (length (participants s'))"
      using active_le_all [of s'] by simp
    also have "\<dots> \<le> max_participants s'"
      using Inr by (rule add_participant_within_capacity)
    finally show ?thesis using AddParticipant Inr by simp
  qed
next
  case (RemoveParticipant uid now)
  have "length (get_active_participants (remove_participant s uid now))
          \<le> length (get_active_participants s)"
  proof -
    have "filter is_active (filter (\<lambda>p. user_id p \<noteq> uid) (participants s))
            = filter (\<lambda>p. user_id p \<noteq> uid) (filter is_active (participants s))"
      by (simp add: conj_commute)
    then show ?thesis
      by (simp add: get_active_participants_def remove_participant_def del: filter_filter)
  qed
  with assms RemoveParticipant show ?thesis
    by (simp add: remove_participant_def)
qed

lemma active_bounded_run:
  "int (length (get_active_participants s)) \<le> max_participants s \<Longrightarrow>
   int (length (get_active_participants (run_roster_ops s ops)))
     \<le> max_participants (run_roster_ops s ops)"
  unfolding run_roster_ops_def
  by (induction ops arbitrary: s) (simp_all add: active_bounded_step)

lemma add_rejected_at_capacity:
  assumes "max_participants s \<le> int (length (get_active_participants s))"
  shows "add_participant s uid uname r now = Inl capacity_error"
proof -
  have "max_participants s \<le> int (length (participants s))"
    using assms active_le_all [of s] by linarith
  then show ?thesis by (simp add: add_participant_def)
qed


lemma distinct_ids_filter:
  "distinct (map user_id ps) \<Longrightarrow> distinct (map user_id (filter P ps))"
  by (induction ps) auto

lemma distinct_ids_add:
  assumes "distinct (map user_id (participants s))"
    and "add_participant s uid uname r now = Inr s'"
  shows "distinct (map user_id (participants s'))"
proof (cases "reactivate uid now (participants s)")
  case None
  then have "uid \<notin> user_id ` set (participants s)"
    by (simp add: reactivate_None_iff)
  with assms None show ?thesis
    by (auto simp: add_participant_def new_participant_def split: if_splits)
next
  case (Some ps)
  then have "map user_id ps = map user_id (participants s)"
    by (rule reactivate_ids)
  with assms Some show ?thesis
    by (auto simp: add_participant_def split: if_splits)
qed

lemma distinct_ids_step:
  "distinct (map user_id (participants s)) \<Longrightarrow>
   distinct (map user_id (participants (apply_roster_op s op)))"
  by (cases op)
    (auto simp: remove_participant_def distinct_ids_filter
      dest: distinct_ids_add split: sum.splits)

lemma distinct_ids_run:
  "distinct (map user_id (participants s)) \<Longrightarrow>
   distinct (map user_id (participants (run_roster_ops s ops)))"
  unfolding run_roster_ops_def
  by (induction ops arbitrary: s) (simp_all add: distinct_ids_step)

lemma no_entry_filter_empty:
  "uid \<notin> user_id ` set ps \<Longrightarrow> filter (\<lambda>q. user_id q = uid \<and> P q) ps = []"
  by (induction ps) auto

lemma distinct_ids_one_entry:
  "distinct (map user_id ps) \<Longrightarrow> length (filter (\<lambda>q. user_id q = uid \<and> P q) ps) \<le> 1"
  by (induction ps) (auto simp: no_entry_filter_empty)

lemma reactivate_entry:
  assumes "distinct (map user_id ps)" and "reactivate uid now ps = Some ps'"
  shows "\<exists>p. p \<in> set ps \<and> user_id p = uid \<and>
           filter (\<lambda>q. user_id q = uid \<and> is_active q) ps'
             = [p\<lparr>is_active := True, last_activity := now\<rparr>]"
  using assms
proof (induction ps arbitrary: ps')
  case Nil
  then show ?case by simp
next
  case (Cons a ps)
  show ?case
  proof (cases "user_id a = uid")
    case True
    with Cons.prems have "uid \<notin> user_id ` set ps" by auto
    then have "filter (\<lambda>q. user_id q = uid \<and> is_active q) ps = []"
      by (rule no_entry_filter_empty)
    with True Cons.prems show ?thesis by auto
  next
    case False
    with Cons.prems obtain qs where qs: "reactivate uid now ps = Some qs" "ps' = a # qs"
      by auto
    from Cons.prems have "distinct (map user_id ps)" by simp
    from Cons.IH [OF this qs(1)] False qs(2) show ?thesis by auto
  qed
qed

lemma two_of_two_eq:
  "two_of_two =
     \<lparr>host_user_id = ''ann'', name = ''Standup'', session_code = ''AB12CD34'',
      session_is_active = True, max_participants = 2,
      participants = [new_participant ''ann'' ''Ann'' ADMIN 1, new_participant ''bob'' ''Bob'' EDITOR 2],
      shared_code = None, created_at = 0, ended_at = None, session_last_activity = 2\<rparr>"
  by (simp add: two_of_two_def run_roster_ops_def fresh_session_def add_participant_def
      new_participant_def)

lemma two_of_three_eq:
  "two_of_three =
     \<lparr>host_user_id = ''ann'', name = ''Standup'', session_code = ''AB12CD34'',
      session_is_active = True, max_participants = 3,
      participants = [new_participant ''ann'' ''Ann'' ADMIN 1, new_participant ''bob'' ''Bob'' EDITOR 2],
      shared_code = None, created_at = 0, ended_at = None, session_last_activity = 2\<rparr>"
  by (simp add: two_of_three_def run_roster_ops_def fresh_session_def add_participant_def
      new_participant_def)

text \<open>
  C3. If the number of active participants of a session is within
  \<open>max_participants\<close>, it is still within it after any sequence of \<open>add_participant\<close>
  and \<open>remove_participant\<close> calls; and \<open>add_participant\<close> raises the capacity error
  whenever the number of active participants has reached \<open>max_participants\<close>.
\<close>

theorem C3_active_participants_within_capacity:
  "(int (length (get_active_participants s)) \<le> max_participants s \<longrightarrow>
      int (length (get_active_participants (run_roster_ops s ops)))
        \<le> max_participants (run_roster_ops s ops)) \<and>
   (max_participants s \<le> int (length (get_active_participants s)) \<longrightarrow>
      add_participant s uid uname r now = Inl capacity_error)"
  using active_bounded_run [of s ops] add_rejected_at_capacity [of s uid uname r now]
  by blast

theorem C3_witness:
  "int (length (get_active_participants (fresh_session ''ann'' ''Standup'' ''AB12CD34'' 2 0)))
     \<le> max_participants (fresh_session ''ann'' ''Standup'' ''AB12CD34'' 2 0) \<and>
   int (length (get_active_participants two_of_two)) \<le> max_participants two_of_two \<and>
   max_participants two_of_two \<le> int (length (get_active_participants two_of_two)) \<and>
   add_participant two_of_two ''cat'' ''Cat'' EDITOR 3 = Inl capacity_error"
proof -
  have h: "int (length (get_active_participants (fresh_session ''ann'' ''Standup'' ''AB12CD34'' 2 0)))
     \<le> max_participants (fresh_session ''ann'' ''Standup'' ''AB12CD34'' 2 0)"
    by (simp add: fresh_session_def get_active_participants_def)
  have full: "max_participants two_of_two \<le> int (length (get_active_participants two_of_two))"
    by (simp add: two_of_two_eq get_active_participants_def new_participant_def)
  from h full
    C3_active_participants_within_capacity
      [of "fresh_session ''ann'' ''Standup'' ''AB12CD34'' 2 0"
          "[AddParticipant ''ann'' ''Ann'' ADMIN 1, AddParticipant ''bob'' ''Bob'' EDITOR 2]"]
    C3_active_participants_within_capacity [of two_of_two "[]" "''cat''" "''Cat''" EDITOR 3]
  show ?thesis by (simp add: two_of_two_def)
qed

text \<open>
  C4, as stated, fails: in a session of capacity 2 that Ann and Bob have joined, a further
  \<open>add_participant\<close> for Ann, whose user id is present, raises the capacity error; her
  entry is not touched and its last-activity time is not refreshed.
\<close>

theorem C4_counterexample:
  "''ann'' \<in> user_id ` set (participants two_of_two) \<and>
   add_participant two_of_two ''ann'' ''Ann'' EDITOR 9 = Inl capacity_error \<and>
   \<not> rejoin_reactivates two_of_two ''ann'' ''Ann'' EDITOR 9"
  by (simp add: two_of_two_eq rejoin_reactivates_def add_participant_def new_participant_def)

text \<open>
  C4, amended. In a session whose participant list holds every user id at most once (as
  the empty list of a new session does), after any sequence of \<open>add_participant\<close> and
  \<open>remove_participant\<close> calls there is at most one active entry per user id. A call of
  \<open>add_participant\<close> for a user id that is present reactivates that entry and refreshes
  its last-activity time, appending nothing, when the participant list is shorter than
  \<open>max_participants\<close>; otherwise it raises the capacity error.
\<close>

theorem C4_one_active_entry_per_user:
  assumes "distinct (map user_id (participants s))"
  shows "length (active_entries (run_roster_ops s ops) uid) \<le> 1 \<and>
         (uid' \<in> user_id ` set (participants s) \<longrightarrow>
            (if int (length (participants s)) < max_participants s
             then rejoin_reactivates s uid' uname r now
             else add_participant s uid' uname r now = Inl capacity_error))"
proof (intro conjI impI)
  from assms have "distinct (map user_id (participants (run_roster_ops s ops)))"
    by (rule distinct_ids_run)
  then show "length (active_entries (run_roster_ops s ops) uid) \<le> 1"
    unfolding active_entries_def by (rule distinct_ids_one_entry)
next
  assume present: "uid' \<in> user_id ` set (participants s)"
  show "if int (length (participants s)) < max_participants s
        then rejoin_reactivates s uid' uname r now
        else add_participant s uid' uname r now = Inl capacity_error"
  proof (cases "int (length (participants s)) < max_participants s")
    case False
    then show ?thesis by (simp add: add_participant_def)
  next
    case True
    from present obtain ps where ps: "reactivate uid' now (participants s) = Some ps"
      using reactivate_None_iff [of uid' now "participants s"] by auto
    from reactivate_entry [OF assms ps] obtain p where
      "p \<in> set (participants s)" "user_id p = uid'"
      "filter (\<lambda>q. user_id q = uid' \<and> is_active q) ps
         = [p\<lparr>is_active := True, last_activity := now\<rparr>]"
      by blast
    with True ps reactivate_length [OF ps] show ?thesis
      by (auto simp: rejoin_reactivates_def add_participant_def active_entries_def)
  qed
qed

theorem C4_witness:
  "distinct (map user_id (participants (fresh_session ''ann'' ''Standup'' ''AB12CD34'' 3 0))) \<and>
   length (active_entries
     (run_roster_ops (fresh_session ''ann'' ''Standup'' ''AB12CD34'' 3 0)
        [AddParticipant ''ann'' ''Ann'' ADMIN 1, AddParticipant ''ann'' ''Ann'' EDITOR 2,
         RemoveParticipant ''ann'' 3, AddParticipant ''ann'' ''Ann'' EDITOR 4]) ''ann'') \<le> 1 \<and>
   distinct (map user_id (participants two_of_three)) \<and>
   ''ann'' \<in> user_id ` set (participants two_of_three) \<and>
   int (length (participants two_of_three)) < max_participants two_of_three \<and>
   rejoin_reactivates two_of_three ''ann'' ''Ann'' EDITOR 9 \<and>
   distinct (map user_id (participants two_of_two)) \<and>
   ''ann'' \<in> user_id ` set (participants two_of_two) \<and>
   add_participant two_of_two ''ann'' ''Ann'' EDITOR 9 = Inl capacity_error"
proof -
  have d0: "distinct (map user_id (participants (fresh_session ''ann'' ''Standup'' ''AB12CD34'' 3 0)))"
    by (simp add: fresh_session_def)
  have d2: "distinct (map user_id (participants two_of_two))"
    by (simp add: two_of_two_eq new_participant_def)
  have m2: "''ann'' \<in> user_id ` set (participants two_of_two)"
    by (simp add: two_of_two_eq new_participant_def)
  have full: "\<not> int (length (participants two_of_two)) < max_participants two_of_two"
    by (simp add: two_of_two_eq)
  have d3: "distinct (map user_id (participants two_of_three))"
    by (simp add: two_of_three_eq new_participant_def)
  have m3: "''ann'' \<in> user_id ` set (participants two_of_three)"
    by (simp add: two_of_three_eq new_participant_def)
  have room: "int (length (participants two_of_three)) < max_participants two_of_three"
    by (simp add: two_of_three_eq)
  from C4_one_active_entry_per_user [OF d0]
    C4_one_active_entry_per_user [OF d2, of "[]" "''ann''" "''ann''" "''Ann''" EDITOR 9]
    C4_one_active_entry_per_user [OF d3, of "[]" "''ann''" "''ann''" "''Ann''" EDITOR 9]
    d0 d2 m2 full d3 m3 room
  show ?thesis by simp
qed


section \<open>Generation tasks (models/generation_models.py, gemini_project_generator.py)\<close>

datatype TaskStatus = queued | running | completed | failed

text \<open>
  The request and result dictionaries are opaque to the worker and to the status stream;
  they are kept as strings.
\<close>

record GenerationTask =
  task_id :: string
  status :: TaskStatus
  request :: string
  result :: "string option"
  artifact_path :: "string option"
  error :: "string option"
  task_created_at :: nat
  updated_at :: nat

definition mark_running :: "GenerationTask \<Rightarrow> nat \<Rightarrow> GenerationTask" where
  "mark_running t now = t\<lparr>status := running, updated_at := now\<rparr>"

definition mark_completed ::
  "GenerationTask \<Rightarrow> string \<Rightarrow> string option \<Rightarrow> nat \<Rightarrow> GenerationTask" where
  "mark_completed t res path now =
     t\<lparr>status := completed, result := Some res, artifact_path := path, updated_at := now\<rparr>"

definition mark_failed :: "GenerationTask \<Rightarrow> string \<Rightarrow> nat \<Rightarrow> GenerationTask" where
  "mark_failed t err now = t\<lparr>status := failed, error := Some err, updated_at := now\<rparr>"

definition is_terminal :: "TaskStatus \<Rightarrow> bool" where
  "is_terminal s = (s = completed \<or> s = failed)"

subsection \<open>The polling fallback of the status stream\<close>

text \<open>
  What \<open>task_progress_ws\<close> sends to its client: the status payload built from the task
  document, or the \<open>task_not_found\<close> error.
\<close>

datatype ws_message =
    StatusPayload string TaskStatus "string option" "string option" "string option"
  | TaskNotFound string

definition payload_of :: "GenerationTask \<Rightarrow> ws_message" where
  "payload_of t = StatusPayload (task_id t) (status t) (result t) (artifact_path t) (error t)"

text \<open>
  The \<open>while True\<close> loop of the fallback. Each pass starts with one
  \<open>GenerationTask.find_one\<close>; the list holds what the successive polls return
  (\<open>None\<close>: no such task). The loop state is \<open>last_status\<close>. The result is the
  sequence of messages sent and whether the stream closed the connection; when the polls
  run out before a terminal status is seen, the stream is still open. The client is taken
  to stay connected, so \<open>send_json\<close> does not raise.
\<close>

fun poll_loop ::
  "string \<Rightarrow> TaskStatus option \<Rightarrow> GenerationTask option list \<Rightarrow> ws_message list \<times> bool" where
  "poll_loop tid last_status [] = ([], False)"
| "poll_loop tid last_status (None # polls) =
     (let (ms, closed) = poll_loop tid last_status polls in (TaskNotFound tid # ms, closed))"
| "poll_loop tid last_status (Some t # polls) =
     (let changed = (Some (status t) \<noteq> last_status);
          sent = (if changed then [payload_of t] else []);
          last_status' = (if changed then Some (status t) else last_status)
      in if status t = completed \<or> status t = failed
         then (sent @ [payload_of t], True)
         else (let (ms, closed) = poll_loop tid last_status' polls in (sent @ ms, closed)))"

definition task_progress_poll :: "string \<Rightarrow> GenerationTask option list \<Rightarrow> ws_message list \<times> bool" where
  "task_progress_poll tid polls = poll_loop tid None polls"

fun terminal_message :: "ws_message \<Rightarrow> bool" where
  "terminal_message (StatusPayload tid s r a e) = is_terminal s"
| "terminal_message (TaskNotFound tid) = False"

definition task_with :: "string \<Rightarrow> TaskStatus \<Rightarrow> GenerationTask" where
  "task_with tid s =
     \<lparr>task_id = tid, status = s, request = ''{}'', result = None, artifact_path = None,
      error = None, task_created_at = 0, updated_at = 0\<rparr>"

lemma poll_loop_terminal_twice:
  assumes "poll_loop tid last_status polls = (ms, True)"
    and "\<And>s. last_status = Some s \<Longrightarrow> \<not> is_terminal s"
  shows "length (filter terminal_message ms) = 2"
  using assms
proof (induction tid last_status polls arbitrary: ms rule: poll_loop.induct)
  case (1 tid last_status)
  then show ?case by simp
next
  case (2 tid last_status polls)
  then show ?case by (auto split: prod.splits)
next
  case (3 tid last_status t polls)
  show ?case
  proof (cases "status t = completed \<or> status t = failed")
    case True
    then have "Some (status t) \<noteq> last_status"
      using "3.prems"(2) by (auto simp: is_terminal_def)
    with True "3.prems"(1) show ?thesis
      by (auto simp: payload_of_def is_terminal_def)
  next
    case False
    then have nt: "\<not> terminal_message (payload_of t)"
      by (simp add: payload_of_def is_terminal_def)
    obtain ms' where rec:
      "poll_loop tid (if Some (status t) \<noteq> last_status then Some (status t) else last_status) polls
         = (ms', True)"
      and ms: "ms = (if Some (status t) \<noteq> last_status then [payload_of t] else []) @ ms'"
      using False "3.prems"(1) by (auto simp: Let_def split: prod.splits)
    have "length (filter terminal_message ms') = 2"
    proof (rule "3.IH" [OF refl refl refl _ rec])
      show "\<not> (status t = completed \<or> status t = failed)" by (rule False)
    next
      fix s
      assume "(if Some (status t) \<noteq> last_status then Some (status t) else last_status) = Some s"
      with False "3.prems"(2) show "\<not> is_terminal s"
        by (auto simp: is_terminal_def split: if_splits)
    qed
    with ms nt show ?thesis by simp
  qed
qed

text \<open>
  C6. Polls that see \<open>queued\<close>, \<open>running\<close> and then \<open>completed\<close> make the stream send
  four messages: one per status change and then the \<open>completed\<close> payload a second time,
  before closing. The second terminal message is sent although the status equals the
  last status sent, and two terminal messages are emitted, not one.
\<close>

theorem C6_terminal_payload_sent_twice:
  "task_progress_poll ''T''
     [Some (task_with ''T'' queued), Some (task_with ''T'' running),
      Some (task_with ''T'' completed)]
   = ([payload_of (task_with ''T'' queued), payload_of (task_with ''T'' running),
       payload_of (task_with ''T'' completed), payload_of (task_with ''T'' completed)], True)
   \<and> length (filter terminal_message (fst (task_progress_poll ''T''
        [Some (task_with ''T'' queued), Some (task_with ''T'' running),
         Some (task_with ''T'' completed)]))) = 2"
  by (simp add: task_progress_poll_def task_with_def payload_of_def is_terminal_def)


subsection \<open>The task queue and its worker\<close>

text \<open>
  The state of the generation subsystem: the \<open>generation_tasks\<close> collection (one
  document per key; \<open>find_one\<close> looks a task id up and \<open>save\<close> writes the document
  back under the key it was found), the deque \<open>_job_queue\<close>, whether a Redis client is
  configured, and the notifications published so far.
\<close>

record notification =
  n_task_id :: string
  n_status :: TaskStatus
  n_result :: "string option"
  n_error :: "string option"

record gen_state =
  tasks :: "string \<rightharpoonup> GenerationTask"
  job_queue :: "string list"
  pubsub_client :: bool
  published :: "notification list"

text \<open>
  \<open>generate_project_async\<close>: the request is stored as a \<open>queued\<close> task under the id
  that \<open>uuid.uuid4()\<close> returned, and the id is appended to the queue.
\<close>

definition generate_project_async :: "string \<Rightarrow> string \<Rightarrow> nat \<Rightarrow> gen_state \<Rightarrow> gen_state" where
  "generate_project_async tid req now st =
     st\<lparr>tasks := (tasks st)(tid \<mapsto>
            \<lparr>task_id = tid, status = queued, request = req, result = None,
             artifact_path = None, error = None, task_created_at = now, updated_at = now\<rparr>),
        job_queue := job_queue st @ [tid]\<rparr>"

text \<open>
  What rehydrating the request and calling \<open>generate_project\<close> do inside the worker's
  inner \<open>try\<close>: return a response, normalised to a payload, or raise.
\<close>

datatype gen_outcome = Returned string | Raised string

definition publish :: "GenerationTask \<Rightarrow> bool \<Rightarrow> gen_state \<Rightarrow> gen_state" where
  "publish t with_result st =
     (if pubsub_client st
      then st\<lparr>published := published st @
              [\<lparr>n_task_id = task_id t, n_status = status t,
                n_result = (if with_result then result t else None), n_error = error t\<rparr>]\<rparr>
      else st)"

text \<open>
  One pass of the \<open>while True\<close> loop of \<open>_worker_loop\<close>. The result lists the states
  the store goes through, one per write: after \<open>popleft\<close>, after \<open>mark_running\<close>, and
  after \<open>mark_completed\<close> or \<open>mark_failed\<close> together with the notification. With an
  empty queue the pass only sleeps and the list is empty. Writes to the store are taken
  to succeed.
\<close>

definition worker_pass :: "gen_outcome \<Rightarrow> nat \<Rightarrow> nat \<Rightarrow> gen_state \<Rightarrow> gen_state list" where
  "worker_pass outcome t_start t_end st =
     (case job_queue st of
        [] \<Rightarrow> []
      | tid # rest \<Rightarrow>
          let st1 = st\<lparr>job_queue := rest\<rparr> in
          (case tasks st1 tid of
             None \<Rightarrow> [st1]
           | Some task \<Rightarrow>
               let task2 = mark_running task t_start;
                   st2 = st1\<lparr>tasks := (tasks st1)(tid \<mapsto> task2)\<rparr>;
                   task3 = (case outcome of
                              Returned payload \<Rightarrow> mark_completed task2 payload None t_end
                            | Raised err \<Rightarrow> mark_failed task2 err t_end);
                   st3 = publish task3 (case outcome of Returned _ \<Rightarrow> True | Raised _ \<Rightarrow> False)
                           (st2\<lparr>tasks := (tasks st2)(tid \<mapsto> task3)\<rparr>)
               in [st1, st2, st3]))"

text \<open>
  The subsystem runs submissions and worker passes in some order. \<open>run_trace\<close> lists
  every state the store goes through, starting with the initial one.
\<close>

datatype gen_event =
    Submit string string nat
  | WorkerPass gen_outcome nat nat

fun exec_event :: "gen_event \<Rightarrow> gen_state \<Rightarrow> gen_state list" where
  "exec_event (Submit tid req now) st = [generate_project_async tid req now st]"
| "exec_event (WorkerPass outcome t_start t_end) st = worker_pass outcome t_start t_end st"

fun run_trace :: "gen_state \<Rightarrow> gen_event list \<Rightarrow> gen_state list" where
  "run_trace st [] = [st]"
| "run_trace st (e # es) =
     butlast (st # exec_event e st) @ run_trace (last (st # exec_event e st)) es"



text \<open>The order \<open>queued < running < completed/failed\<close>.\<close>

fun status_rank :: "TaskStatus \<Rightarrow> nat" where
  "status_rank queued = 0"
| "status_rank running = 1"
| "status_rank completed = 2"
| "status_rank failed = 2"


definition status_of_outcome :: "gen_outcome \<Rightarrow> TaskStatus" where
  "status_of_outcome outcome = (case outcome of Returned _ \<Rightarrow> completed | Raised _ \<Rightarrow> failed)"





subsection \<open>Properties of the worker\<close>


lemma terminal_rank: "is_terminal s \<longleftrightarrow> status_rank s = 2"
  by (cases s) (auto simp: is_terminal_def)




lemma run_trace_head: "\<exists>rest. run_trace st es = st # rest"
proof (induction es arbitrary: st)
  case Nil
  then show ?case by simp
next
  case (Cons e es)
  obtain rest where r: "run_trace (last (st # exec_event e st)) es = last (st # exec_event e st) # rest"
    using Cons.IH by blast
  have "butlast (st # exec_event e st) @ last (st # exec_event e st) # rest
          = (st # exec_event e st) @ rest"
    by (metis append_butlast_last_id append_Cons append_Nil append_assoc list.distinct(1))
  with r show ?case by simp
qed

lemma run_trace_Cons:
  "run_trace st (e # es) = st # exec_event e st @ tl (run_trace (last (st # exec_event e st)) es)"
proof -
  obtain rest where r: "run_trace (last (st # exec_event e st)) es = last (st # exec_event e st) # rest"
    using run_trace_head by blast
  have "butlast (st # exec_event e st) @ last (st # exec_event e st) # rest
          = (st # exec_event e st) @ rest"
    by (metis append_butlast_last_id append_Cons append_Nil append_assoc list.distinct(1))
  with r show ?thesis by simp
qed





lemma tasks_publish [simp]: "tasks (publish t b st) = tasks st"
  and job_queue_publish [simp]: "job_queue (publish t b st) = job_queue st"
  by (simp_all add: publish_def)

lemma status_outcome [simp]:
  "status (case outcome of Returned payload \<Rightarrow> mark_completed t payload None t2
            | Raised err \<Rightarrow> mark_failed t err t2) = status_of_outcome outcome"
  by (cases outcome) (simp_all add: mark_completed_def mark_failed_def status_of_outcome_def)

























section \<open>Connection registry (websocket_manager.py)\<close>

text \<open>
  A \<open>WebSocket\<close> is a handle, here a number. The \<open>user_info\<close> dictionary is read
  through its keys \<open>id\<close> and \<open>name\<close>, either of which may be missing. A Python set of
  sockets is a duplicate-free list: its order stands for the unspecified order in which
  \<open>list(...)\<close> enumerates the set.
\<close>

record user_info =
  info_id :: "string option"
  info_name :: "string option"

record session_meta =
  meta_id :: string
  meta_created_at :: nat
  meta_participants :: "user_info list"

record conn_entry =
  conn_session_id :: string
  conn_user_info :: user_info

datatype message =
    UserJoined user_info nat
  | UserLeft user_info nat
  | SessionInfo string "user_info list" nat
  | Relayed string user_info nat string

record client_message =
  msg_type :: string
  msg_body :: string

datatype EventType =
    USER_JOINED | USER_LEFT | CODE_CHANGED | VOICE_COMMAND | CHAT_MESSAGE
  | FILE_CREATED | FILE_DELETED

record CollaborationEvent =
  ev_session_id :: string
  ev_user_id :: string
  event_type :: EventType
  description :: string
  ev_user :: user_info
  ev_created_at :: nat

text \<open>Coroutines handed to \<open>asyncio.create_task\<close>: they run later, from the event loop.\<close>

datatype scheduled_task =
    BroadcastTask string message
  | PersistLeave string "string option" user_info

text \<open>
  The four dictionaries of the \<open>ConnectionManager\<close> singleton, together with what its
  methods reach outside it: the \<open>collaboration_sessions\<close> collection and the event
  collection of the document store (taken to be reachable), the condition of every
  socket (\<open>send_text\<close> raises on a socket that is not ok), what each socket has been
  sent, and the tasks scheduled on the event loop.
\<close>

record world =
  active_connections :: "string \<rightharpoonup> nat list"
  user_connections :: "nat \<rightharpoonup> conn_entry"
  sessions :: "string \<rightharpoonup> session_meta"
  user_id_connections :: "string \<rightharpoonup> nat list"
  store :: "string \<rightharpoonup> CollaborationSession"
  event_log :: "CollaborationEvent list"
  socket_ok :: "nat \<Rightarrow> bool"
  delivered :: "nat \<Rightarrow> message list"
  scheduled :: "scheduled_task list"

text \<open>
  A method that raises leaves the mutations made so far in place, so the error comes
  with the state at the point of the raise.
\<close>

type_synonym outcome = "(py_error \<times> world) + world"

definition and_then :: "outcome \<Rightarrow> (world \<Rightarrow> outcome) \<Rightarrow> outcome" where
  "and_then r f = (case r of Inl e \<Rightarrow> Inl e | Inr w \<Rightarrow> f w)"

definition world_of :: "outcome \<Rightarrow> world" where
  "world_of r = (case r of Inl (e, w) \<Rightarrow> w | Inr w \<Rightarrow> w)"

definition set_add :: "nat \<Rightarrow> nat list \<Rightarrow> nat list" where
  "set_add x xs = (if x \<in> set xs then xs else xs @ [x])"

definition members :: "world \<Rightarrow> string \<Rightarrow> nat list" where
  "members w sid = (case active_connections w sid of None \<Rightarrow> [] | Some cs \<Rightarrow> cs)"

definition send_text :: "nat \<Rightarrow> message \<Rightarrow> world \<Rightarrow> world option" where
  "send_text c m w =
     (if socket_ok w c then Some (w\<lparr>delivered := (delivered w)(c := delivered w c @ [m])\<rparr>)
      else None)"

subsection \<open>broadcast_to_session and send_personal_message\<close>

text \<open>
  The \<open>except\<close> branch of the broadcast loop: the failed connection is discarded from the
  session's set and deleted from \<open>user_connections\<close>.
\<close>

definition drop_failed :: "string \<Rightarrow> nat \<Rightarrow> world \<Rightarrow> outcome" where
  "drop_failed sid c w =
     (case active_connections w sid of
        None \<Rightarrow> Inl (KeyError, w)
      | Some cs \<Rightarrow>
          Inr (w\<lparr>active_connections := (active_connections w)(sid \<mapsto> removeAll c cs),
                 user_connections := (user_connections w)(c := None)\<rparr>))"

fun broadcast_loop :: "string \<Rightarrow> message \<Rightarrow> nat option \<Rightarrow> nat list \<Rightarrow> world \<Rightarrow> outcome" where
  "broadcast_loop sid m exclude [] w = Inr w"
| "broadcast_loop sid m exclude (c # cs) w =
     (if exclude = Some c then broadcast_loop sid m exclude cs w
      else
        case send_text c m w of
          Some w' \<Rightarrow> broadcast_loop sid m exclude cs w'
        | None \<Rightarrow> and_then (drop_failed sid c w) (broadcast_loop sid m exclude cs))"

definition broadcast_to_session :: "string \<Rightarrow> message \<Rightarrow> nat option \<Rightarrow> world \<Rightarrow> outcome" where
  "broadcast_to_session sid m exclude w =
     (case active_connections w sid of
        None \<Rightarrow> Inr w
      | Some connections \<Rightarrow> broadcast_loop sid m exclude connections w)"

definition send_personal_message :: "message \<Rightarrow> nat \<Rightarrow> world \<Rightarrow> world" where
  "send_personal_message m ws w = (case send_text ws m w of Some w' \<Rightarrow> w' | None \<Rightarrow> w)"


subsection \<open>connect\<close>

text \<open>
  \<open>connect\<close> first accepts the socket, which touches none of the state kept here.
  It then reads the user id from \<open>user_info\<close>; when it is missing or empty a
  \<open>uuid4\<close> (the argument \<open>fresh\<close>) is generated and written into \<open>user_info\<close>.
\<close>

definition resolve_user :: "user_info \<Rightarrow> string \<Rightarrow> string \<times> user_info" where
  "resolve_user ui fresh =
     (case info_id ui of
        None \<Rightarrow> (fresh, ui\<lparr>info_id := Some fresh\<rparr>)
      | Some u \<Rightarrow> if u = [] then (fresh, ui\<lparr>info_id := Some fresh\<rparr>) else (u, ui))"

text \<open>
  Lines 35 to 59: the session entry is created if need be, the socket is added to the
  session's set, to \<open>user_connections\<close> and to the user's set, and the user joins the
  in-memory roster unless an entry with the user id is there.
\<close>

definition connect_register :: "nat \<Rightarrow> string \<Rightarrow> string \<Rightarrow> user_info \<Rightarrow> nat \<Rightarrow> world \<Rightarrow> outcome" where
  "connect_register ws sid uid ui now w =
     (let w1 = (if active_connections w sid = None
                then w\<lparr>active_connections := (active_connections w)(sid \<mapsto> []),
                       sessions := (sessions w)(sid \<mapsto>
                         \<lparr>meta_id = sid, meta_created_at = now, meta_participants = []\<rparr>)\<rparr>
                else w);
          w2 = w1\<lparr>active_connections := (active_connections w1)(sid \<mapsto> set_add ws (members w1 sid)),
                  user_connections := (user_connections w1)(ws \<mapsto>
                    \<lparr>conn_session_id = sid, conn_user_info = ui\<rparr>)\<rparr>;
          w3 = w2\<lparr>user_id_connections := (user_id_connections w2)(uid \<mapsto>
                    set_add ws (case user_id_connections w2 uid of None \<Rightarrow> [] | Some l \<Rightarrow> l))\<rparr>
      in case sessions w3 sid of
           None \<Rightarrow> Inl (KeyError, w3)
         | Some meta \<Rightarrow>
             if (\<exists>p \<in> set (meta_participants meta). info_id p = Some uid) then Inr w3
             else Inr (w3\<lparr>sessions := (sessions w3)(sid \<mapsto>
                          meta\<lparr>meta_participants := meta_participants meta @ [ui]\<rparr>)\<rparr>))"

text \<open>Lines 61 to 70: \<open>user_joined\<close> goes to the session, the new socket excluded.\<close>

definition connect_notify :: "nat \<Rightarrow> string \<Rightarrow> user_info \<Rightarrow> world \<Rightarrow> outcome" where
  "connect_notify ws sid ui w =
     (case active_connections w sid of
        None \<Rightarrow> Inl (KeyError, w)
      | Some cs \<Rightarrow> broadcast_to_session sid (UserJoined ui (length cs)) (Some ws) w)"

text \<open>Lines 72 to 81: the roster snapshot goes to the new socket.\<close>

definition connect_snapshot :: "nat \<Rightarrow> string \<Rightarrow> world \<Rightarrow> outcome" where
  "connect_snapshot ws sid w =
     (case sessions w sid of
        None \<Rightarrow> Inl (KeyError, w)
      | Some meta \<Rightarrow>
          (case active_connections w sid of
             None \<Rightarrow> Inl (KeyError, w)
           | Some cs \<Rightarrow>
               Inr (send_personal_message
                      (SessionInfo sid (meta_participants meta) (length cs)) ws w)))"

text \<open>
  Lines 85 to 99, the best-effort persistence: inside a \<open>try\<close> the durable session, if
  there is one, gets the participant, is saved, and the join is logged. Whatever
  \<open>add_participant\<close> raises is caught and logged as a warning; the store and the event
  collection then stay as they were.
\<close>

definition display_name :: "user_info \<Rightarrow> string \<Rightarrow> string" where
  "display_name ui uid =
     (case info_name ui of None \<Rightarrow> ''user_'' @ uid
      | Some n \<Rightarrow> if n = [] then ''user_'' @ uid else n)"

definition name_or_User :: "user_info \<Rightarrow> string" where
  "name_or_User ui = (case info_name ui of None \<Rightarrow> ''User'' | Some n \<Rightarrow> n)"

definition connect_persist :: "string \<Rightarrow> string \<Rightarrow> user_info \<Rightarrow> nat \<Rightarrow> world \<Rightarrow> world" where
  "connect_persist sid uid ui now w =
     (case store w sid of
        None \<Rightarrow> w
      | Some session \<Rightarrow>
          (case add_participant session uid (display_name ui uid) EDITOR now of
             Inl e \<Rightarrow> w
           | Inr session' \<Rightarrow>
               w\<lparr>store := (store w)(sid \<mapsto> session'),
                 event_log := event_log w @
                   [\<lparr>ev_session_id = sid, ev_user_id = uid, event_type = USER_JOINED,
                     description = name_or_User ui @ '' joined session'', ev_user = ui,
                     ev_created_at = now\<rparr>]\<rparr>))"

text \<open>
  \<open>connect\<close> awaits the \<open>user_joined\<close> broadcast before it sends the snapshot.
  \<open>connect_join\<close> is the method up to the end of that broadcast, \<open>connect_rest\<close> what
  follows it, and \<open>connect\<close> the two run without anything in between.
\<close>

definition connect_join :: "nat \<Rightarrow> string \<Rightarrow> user_info \<Rightarrow> string \<Rightarrow> nat \<Rightarrow> world \<Rightarrow> outcome" where
  "connect_join ws sid user_info fresh now w =
     (let (uid, ui) = resolve_user user_info fresh in
      and_then (connect_register ws sid uid ui now w) (connect_notify ws sid ui))"

definition connect_rest :: "nat \<Rightarrow> string \<Rightarrow> user_info \<Rightarrow> string \<Rightarrow> nat \<Rightarrow> world \<Rightarrow> outcome" where
  "connect_rest ws sid user_info fresh now w =
     (let (uid, ui) = resolve_user user_info fresh in
      and_then (connect_snapshot ws sid w) (\<lambda>w'. Inr (connect_persist sid uid ui now w')))"

definition connect :: "nat \<Rightarrow> string \<Rightarrow> user_info \<Rightarrow> string \<Rightarrow> nat \<Rightarrow> world \<Rightarrow> outcome" where
  "connect ws sid user_info fresh now w =
     and_then (connect_join ws sid user_info fresh now w) (connect_rest ws sid user_info fresh now)"

subsection \<open>disconnect, handle_message and the scheduled tasks\<close>

text \<open>Lines 109 to 129 of \<open>disconnect\<close>, for a session that has a connection set.\<close>

definition leave_session :: "nat \<Rightarrow> string \<Rightarrow> user_info \<Rightarrow> world \<Rightarrow> outcome" where
  "leave_session ws sid ui w =
     (case active_connections w sid of
        None \<Rightarrow> Inr w
      | Some cs \<Rightarrow>
          let cs' = removeAll ws cs;
              w1 = w\<lparr>active_connections := (active_connections w)(sid \<mapsto> cs')\<rparr>
          in case sessions w1 sid of
               None \<Rightarrow> Inl (KeyError, w1)
             | Some meta \<Rightarrow>
                 let w2 = w1\<lparr>sessions := (sessions w1)(sid \<mapsto>
                            meta\<lparr>meta_participants :=
                              filter (\<lambda>p. info_id p \<noteq> info_id ui) (meta_participants meta)\<rparr>)\<rparr>
                 in if cs' = []
                    then Inr (w2\<lparr>active_connections := (active_connections w2)(sid := None),
                                sessions := (sessions w2)(sid := None)\<rparr>)
                    else Inr (w2\<lparr>scheduled := scheduled w2 @
                                [BroadcastTask sid (UserLeft ui (length cs'))]\<rparr>))"

text \<open>Lines 131 to 162: the socket's own entries go, and the persistence task is scheduled.\<close>

definition forget_socket :: "nat \<Rightarrow> string \<Rightarrow> user_info \<Rightarrow> world \<Rightarrow> world" where
  "forget_socket ws sid ui w =
     (let w1 = w\<lparr>user_connections := (user_connections w)(ws := None)\<rparr>;
          w2 = (case info_id ui of
                  None \<Rightarrow> w1
                | Some uid \<Rightarrow>
                    if uid = [] then w1
                    else case user_id_connections w1 uid of
                           None \<Rightarrow> w1
                         | Some l \<Rightarrow>
                             if removeAll ws l = []
                             then w1\<lparr>user_id_connections := (user_id_connections w1)(uid := None)\<rparr>
                             else w1\<lparr>user_id_connections :=
                                      (user_id_connections w1)(uid \<mapsto> removeAll ws l)\<rparr>)
      in if sid = [] then w2
         else w2\<lparr>scheduled := scheduled w2 @ [PersistLeave sid (info_id ui) ui]\<rparr>)"

definition disconnect :: "nat \<Rightarrow> world \<Rightarrow> outcome" where
  "disconnect ws w =
     (case user_connections w ws of
        None \<Rightarrow> Inr w
      | Some user_data \<Rightarrow>
          and_then (leave_session ws (conn_session_id user_data) (conn_user_info user_data) w)
            (\<lambda>w'. Inr (forget_socket ws (conn_session_id user_data) (conn_user_info user_data) w')))"

definition handle_message :: "nat \<Rightarrow> client_message \<Rightarrow> nat \<Rightarrow> world \<Rightarrow> outcome" where
  "handle_message ws cm now w =
     (case user_connections w ws of
        None \<Rightarrow> Inr w
      | Some user_data \<Rightarrow>
          let m = Relayed (msg_type cm) (conn_user_info user_data) now (msg_body cm) in
          if msg_type cm = ''chat_message''
          then broadcast_to_session (conn_session_id user_data) m None w
          else broadcast_to_session (conn_session_id user_data) m (Some ws) w)"

text \<open>
  The two coroutines \<open>disconnect\<close> schedules: the \<open>user_left\<close> broadcast, and
  \<open>_persist\<close>, which removes the user from the durable session and logs the event.
\<close>

fun run_task :: "nat \<Rightarrow> scheduled_task \<Rightarrow> world \<Rightarrow> outcome" where
  "run_task now (BroadcastTask sid m) w = broadcast_to_session sid m None w"
| "run_task now (PersistLeave sid uid_opt ui) w =
     Inr (case store w sid of
            None \<Rightarrow> w
          | Some session \<Rightarrow>
              (case uid_opt of
                 None \<Rightarrow> w
               | Some uid \<Rightarrow>
                   if uid = [] then w
                   else w\<lparr>store := (store w)(sid \<mapsto> remove_participant session uid now),
                          event_log := event_log w @
                            [\<lparr>ev_session_id = sid, ev_user_id = uid, event_type = USER_LEFT,
                              description = name_or_User ui @ '' left session'', ev_user = ui,
                              ev_created_at = now\<rparr>]\<rparr>))"

definition run_next :: "nat \<Rightarrow> world \<Rightarrow> outcome" where
  "run_next now w =
     (case scheduled w of [] \<Rightarrow> Inr w | t # ts \<Rightarrow> run_task now t (w\<lparr>scheduled := ts\<rparr>))"

subsection \<open>Schedules\<close>

text \<open>
  The event loop runs one coroutine at a time and changes coroutine only at an
  \<open>await\<close>. A schedule lists the pieces it runs, in order: a whole \<open>connect\<close>, or its
  two parts with other pieces between them; the handling of a message received from a
  socket; a \<open>disconnect\<close>; the oldest scheduled task. An exception ends the coroutine
  that raised it and leaves the state as it is.
\<close>

datatype step =
    Connect nat string user_info string nat
  | ConnectJoin nat string user_info string nat
  | ConnectRest nat string user_info string nat
  | HandleMessage nat client_message nat
  | Disconnect nat
  | RunScheduled nat

fun exec_step :: "world \<Rightarrow> step \<Rightarrow> world" where
  "exec_step w (Connect ws sid ui fresh now) = world_of (connect ws sid ui fresh now w)"
| "exec_step w (ConnectJoin ws sid ui fresh now) = world_of (connect_join ws sid ui fresh now w)"
| "exec_step w (ConnectRest ws sid ui fresh now) = world_of (connect_rest ws sid ui fresh now w)"
| "exec_step w (HandleMessage ws cm now) = world_of (handle_message ws cm now w)"
| "exec_step w (Disconnect ws) = world_of (disconnect ws w)"
| "exec_step w (RunScheduled now) = world_of (run_next now w)"

definition run_steps :: "world \<Rightarrow> step list \<Rightarrow> world" where
  "run_steps w steps = foldl exec_step w steps"

text \<open>
  The state of a process that has just started: nothing registered, nothing sent; the
  store and the condition of the sockets are given.
\<close>

definition initial_world :: "(string \<rightharpoonup> CollaborationSession) \<Rightarrow> (nat \<Rightarrow> bool) \<Rightarrow> world" where
  "initial_world db ok =
     \<lparr>active_connections = Map.empty, user_connections = Map.empty, sessions = Map.empty,
      user_id_connections = Map.empty, store = db, event_log = [], socket_ok = ok,
      delivered = (\<lambda>_. []), scheduled = []\<rparr>"


subsection \<open>What a broadcast does\<close>

text \<open>
  One pass of the broadcast loop as a total function, for a session that has a
  connection set; \<open>send_fails\<close> tells the connections of the snapshot whose send raises.
\<close>

definition broadcast_step :: "string \<Rightarrow> message \<Rightarrow> nat option \<Rightarrow> world \<Rightarrow> nat \<Rightarrow> world" where
  "broadcast_step sid m exclude w c =
     (if exclude = Some c then w
      else if socket_ok w c then w\<lparr>delivered := (delivered w)(c := delivered w c @ [m])\<rparr>
      else w\<lparr>active_connections := (active_connections w)(sid \<mapsto> removeAll c (members w sid)),
             user_connections := (user_connections w)(c := None)\<rparr>)"

definition send_fails :: "world \<Rightarrow> nat option \<Rightarrow> nat list \<Rightarrow> nat \<Rightarrow> bool" where
  "send_fails w exclude cs c = (c \<in> set cs \<and> exclude \<noteq> Some c \<and> \<not> socket_ok w c)"

lemma broadcast_step_dom:
  "active_connections w sid \<noteq> None \<Longrightarrow> active_connections (broadcast_step sid m ex w c) sid \<noteq> None"
  by (simp add: broadcast_step_def)

lemma broadcast_loop_fold:
  "active_connections w sid \<noteq> None \<Longrightarrow>
   broadcast_loop sid m ex cs w = Inr (foldl (broadcast_step sid m ex) w cs)"
proof (induction cs arbitrary: w)
  case Nil
  then show ?case by simp
next
  case (Cons c cs)
  have step: "broadcast_loop sid m ex (c # cs) w
                = broadcast_loop sid m ex cs (broadcast_step sid m ex w c)"
    using Cons.prems
    by (auto simp: broadcast_step_def send_text_def drop_failed_def and_then_def members_def)
  have "active_connections (broadcast_step sid m ex w c) sid \<noteq> None"
    using Cons.prems by (rule broadcast_step_dom)
  from Cons.IH [OF this] step show ?case by simp
qed

lemma broadcast_to_session_fold:
  "broadcast_to_session sid m ex w
     = Inr (foldl (broadcast_step sid m ex) w (members w sid))"
  by (cases "active_connections w sid")
     (simp_all add: broadcast_to_session_def members_def broadcast_loop_fold)

lemma fold_broadcast_frame:
  "sessions (foldl (broadcast_step sid m ex) w cs) = sessions w \<and>
   user_id_connections (foldl (broadcast_step sid m ex) w cs) = user_id_connections w \<and>
   store (foldl (broadcast_step sid m ex) w cs) = store w \<and>
   event_log (foldl (broadcast_step sid m ex) w cs) = event_log w \<and>
   socket_ok (foldl (broadcast_step sid m ex) w cs) = socket_ok w \<and>
   scheduled (foldl (broadcast_step sid m ex) w cs) = scheduled w"
  by (induction cs arbitrary: w) (simp_all add: broadcast_step_def)

lemma fold_broadcast_other_session:
  "s \<noteq> sid \<Longrightarrow> active_connections (foldl (broadcast_step sid m ex) w cs) s = active_connections w s"
  by (induction cs arbitrary: w) (simp_all add: broadcast_step_def)

lemma fold_broadcast_members:
  "active_connections w sid \<noteq> None \<Longrightarrow>
   active_connections (foldl (broadcast_step sid m ex) w cs) sid
     = Some (filter (\<lambda>c. \<not> send_fails w ex cs c) (members w sid))"
proof (induction cs arbitrary: w)
  case Nil
  then show ?case by (auto simp: send_fails_def members_def)
next
  case (Cons c cs)
  let ?w = "broadcast_step sid m ex w c"
  have ok: "socket_ok ?w = socket_ok w" by (simp add: broadcast_step_def)
  have dom: "active_connections ?w sid \<noteq> None" using Cons.prems by (rule broadcast_step_dom)
  have "filter (\<lambda>c'. \<not> send_fails ?w ex cs c') (members ?w sid)
          = filter (\<lambda>c'. \<not> send_fails w ex (c # cs) c') (members w sid)"
    by (auto simp: broadcast_step_def send_fails_def members_def removeAll_filter_not_eq
          intro!: filter_cong)
  with Cons.IH [OF dom] show ?case by simp
qed

lemma fold_broadcast_user_connections:
  "user_connections (foldl (broadcast_step sid m ex) w cs) c
     = (if send_fails w ex cs c then None else user_connections w c)"
proof (induction cs arbitrary: w)
  case Nil
  then show ?case by (simp add: send_fails_def)
next
  case (Cons a cs)
  have ok: "socket_ok (broadcast_step sid m ex w a) = socket_ok w" by (simp add: broadcast_step_def)
  show ?case
    unfolding foldl_Cons Cons.IH
    by (auto simp: send_fails_def ok) (auto simp: broadcast_step_def)
qed

lemma fold_broadcast_delivered:
  "delivered (foldl (broadcast_step sid m ex) w cs) c
     = (if socket_ok w c \<and> ex \<noteq> Some c then delivered w c @ replicate (count_list cs c) m
        else delivered w c)"
proof (induction cs arbitrary: w)
  case Nil
  then show ?case by simp
next
  case (Cons a cs)
  have ok: "socket_ok (broadcast_step sid m ex w a) = socket_ok w" by (simp add: broadcast_step_def)
  show ?case
    unfolding foldl_Cons Cons.IH
    by (auto simp: ok broadcast_step_def replicate_app_Cons_same)
qed


subsection \<open>A session with two peers\<close>

text \<open>
  Ann (socket 1) and Bob (socket 2) have connected to session \<open>S\<close>, which has no
  durable document. In \<open>one_dead\<close> Ann's socket has gone away without a
  \<open>disconnect\<close> yet: sends to it raise.
\<close>

definition ann :: user_info where "ann = \<lparr>info_id = Some ''ann'', info_name = Some ''Ann''\<rparr>"
definition bob :: user_info where "bob = \<lparr>info_id = Some ''bob'', info_name = Some ''Bob''\<rparr>"
definition cat :: user_info where "cat = \<lparr>info_id = Some ''cat'', info_name = Some ''Cat''\<rparr>"

definition two_peers :: world where
  "two_peers = run_steps (initial_world Map.empty (\<lambda>_. True))
     [Connect 1 ''S'' ann ''u1'' 1, Connect 2 ''S'' bob ''u2'' 2]"

lemmas connect_defs =
  connect_def connect_join_def connect_rest_def connect_register_def connect_notify_def
  connect_snapshot_def connect_persist_def resolve_user_def and_then_def world_of_def
  send_personal_message_def send_text_def set_add_def members_def broadcast_to_session_def
  drop_failed_def

lemma two_peers_fields:
  "active_connections two_peers ''S'' = Some [1, 2]"
  "user_connections two_peers 1 = Some \<lparr>conn_session_id = ''S'', conn_user_info = ann\<rparr>"
  "user_connections two_peers 2 = Some \<lparr>conn_session_id = ''S'', conn_user_info = bob\<rparr>"
  "user_id_connections two_peers ''ann'' = Some [1]"
  "user_id_connections two_peers ''bob'' = Some [2]"
  "sessions two_peers ''S'' = Some \<lparr>meta_id = ''S'', meta_created_at = 1, meta_participants = [ann, bob]\<rparr>"
  "delivered two_peers 1 = [SessionInfo ''S'' [ann] 1, UserJoined bob 2]"
  "delivered two_peers 2 = [SessionInfo ''S'' [ann, bob] 2]"
  "scheduled two_peers = []"
  by (simp_all add: two_peers_def run_steps_def initial_world_def connect_defs ann_def bob_def)


definition one_dead :: world where
  "one_dead = two_peers\<lparr>socket_ok := (\<lambda>c. c \<noteq> 1)\<rparr>"

definition hello :: message where
  "hello = Relayed ''chat_message'' bob 9 ''hello''"

lemma count_list_distinct:
  "distinct xs \<Longrightarrow> x \<in> set xs \<Longrightarrow> count_list xs x = 1"
  by (induction xs) auto

lemma broadcast_delivers_and_drops:
  assumes "broadcast_to_session sid m ex w = r"
  shows "\<not> isl r"
    and "c \<in> set (members w sid) \<Longrightarrow> socket_ok w c \<Longrightarrow> ex \<noteq> Some c \<Longrightarrow>
           distinct (members w sid) \<Longrightarrow> delivered (world_of r) c = delivered w c @ [m]"
    and "c \<in> set (members w sid) \<Longrightarrow> \<not> socket_ok w c \<Longrightarrow> ex \<noteq> Some c \<Longrightarrow>
           c \<notin> set (members (world_of r) sid) \<and> user_connections (world_of r) c = None"
    and "user_id_connections (world_of r) = user_id_connections w"
proof -
  have r: "r = Inr (foldl (broadcast_step sid m ex) w (members w sid))"
    using assms by (simp add: broadcast_to_session_fold)
  show "\<not> isl r" by (simp add: r)
  show "user_id_connections (world_of r) = user_id_connections w"
    by (simp add: r world_of_def fold_broadcast_frame)
  show "delivered (world_of r) c = delivered w c @ [m]"
    if "c \<in> set (members w sid)" "socket_ok w c" "ex \<noteq> Some c" "distinct (members w sid)"
  proof -
    have "count_list (members w sid) c = 1"
      using that(4,1) by (rule count_list_distinct)
    with that show ?thesis by (simp add: r world_of_def fold_broadcast_delivered)
  qed
  show "c \<notin> set (members (world_of r) sid) \<and> user_connections (world_of r) c = None"
    if "c \<in> set (members w sid)" "\<not> socket_ok w c" "ex \<noteq> Some c"
  proof -
    from that(1) have dom: "active_connections w sid \<noteq> None"
      by (cases "active_connections w sid") (simp_all add: members_def)
    have "send_fails w ex (members w sid) c" using that by (simp add: send_fails_def)
    then show ?thesis
      using fold_broadcast_members [OF dom, of m ex "members w sid"]
      by (simp add: r world_of_def fold_broadcast_user_connections members_def)
  qed
qed

text \<open>
  C8. Broadcasting to the session of a dead socket 1 (Ann) and a healthy socket 2 (Bob)
  raises nothing, delivers the message to socket 2 and removes socket 1 from the
  session's connection set and from \<open>user_connections\<close>. Socket 1 stays in
  \<open>user_id_connections\<close>, the user-keyed map of the registry, and a later
  \<open>disconnect\<close> of socket 1 no longer finds it in \<open>user_connections\<close> and leaves
  the stale entry where it is.
\<close>

theorem C8_failed_socket_stays_in_user_map:
  "\<not> isl (broadcast_to_session ''S'' hello None one_dead) \<and>
   delivered (world_of (broadcast_to_session ''S'' hello None one_dead)) 2
     = delivered one_dead 2 @ [hello] \<and>
   members (world_of (broadcast_to_session ''S'' hello None one_dead)) ''S'' = [2] \<and>
   user_connections (world_of (broadcast_to_session ''S'' hello None one_dead)) 1 = None \<and>
   user_id_connections (world_of (broadcast_to_session ''S'' hello None one_dead)) ''ann'' = Some [1] \<and>
   user_id_connections
     (world_of (disconnect 1 (world_of (broadcast_to_session ''S'' hello None one_dead)))) ''ann''
     = Some [1]"
proof -
  let ?w = "world_of (broadcast_to_session ''S'' hello None one_dead)"
  have m: "members one_dead ''S'' = [1, 2]"
    by (simp add: one_dead_def members_def two_peers_fields)
  have w: "?w = foldl (broadcast_step ''S'' hello None) one_dead [1, 2]"
    by (simp add: broadcast_to_session_fold world_of_def m)
  have dom: "active_connections one_dead ''S'' \<noteq> None"
    by (simp add: one_dead_def two_peers_fields)
  have 1: "delivered ?w 2 = delivered one_dead 2 @ [hello]"
    unfolding w fold_broadcast_delivered by (simp add: one_dead_def)
  have 2: "members ?w ''S'' = [2]"
    unfolding w members_def fold_broadcast_members [OF dom]
    by (simp add: send_fails_def one_dead_def two_peers_fields members_def)
  have 3: "user_connections ?w 1 = None"
    unfolding w fold_broadcast_user_connections by (simp add: send_fails_def one_dead_def)
  have "user_id_connections ?w = user_id_connections one_dead"
    by (simp only: w fold_broadcast_frame)
  then have 4: "user_id_connections ?w ''ann'' = Some [1]"
    by (simp add: one_dead_def two_peers_fields)
  have 5: "disconnect 1 ?w = Inr ?w"
    using 3 by (simp add: disconnect_def)
  show ?thesis using 1 2 3 4 5 by (simp add: broadcast_to_session_fold world_of_def)
qed


subsection \<open>What connect does\<close>

text \<open>
  \<open>snapshot_first\<close>: the first message a socket was sent, if any, is a
  \<open>session_info\<close>. \<open>sessions_cover\<close>: every session with a connection set has its
  metadata entry, as \<open>connect\<close> and \<open>disconnect\<close> keep it. \<open>inv_except x\<close>: every
  socket has the snapshot first, every healthy registered socket other than \<open>x\<close> has
  been sent something, and the sessions are covered.
\<close>

fun is_session_info :: "message \<Rightarrow> bool" where
  "is_session_info (SessionInfo sid ps n) = True"
| "is_session_info (UserJoined ui n) = False"
| "is_session_info (UserLeft ui n) = False"
| "is_session_info (Relayed t ui n b) = False"

definition snapshot_first :: "world \<Rightarrow> nat \<Rightarrow> bool" where
  "snapshot_first w c = (case delivered w c of [] \<Rightarrow> True | m # ms \<Rightarrow> is_session_info m)"

definition sessions_cover :: "world \<Rightarrow> bool" where
  "sessions_cover w = (\<forall>sid. active_connections w sid \<noteq> None \<longrightarrow> sessions w sid \<noteq> None)"

definition inv_except :: "nat option \<Rightarrow> world \<Rightarrow> bool" where
  "inv_except x w =
     ((\<forall>c. snapshot_first w c) \<and>
      (\<forall>sid c. c \<in> set (members w sid) \<longrightarrow> socket_ok w c \<longrightarrow> Some c \<noteq> x \<longrightarrow> delivered w c \<noteq> []) \<and>
      sessions_cover w)"

lemma connect_register_ok:
  assumes "active_connections w sid \<noteq> None \<longrightarrow> sessions w sid \<noteq> None"
  shows "\<exists>w1. connect_register ws sid uid ui now w = Inr w1 \<and>
           active_connections w1 = (active_connections w)(sid \<mapsto> set_add ws (members w sid)) \<and>
           user_connections w1 = (user_connections w)(ws \<mapsto> \<lparr>conn_session_id = sid, conn_user_info = ui\<rparr>) \<and>
           dom (sessions w1) = insert sid (dom (sessions w)) \<and>
           store w1 = store w \<and> event_log w1 = event_log w \<and> socket_ok w1 = socket_ok w \<and>
           delivered w1 = delivered w \<and> scheduled w1 = scheduled w"
proof (cases "active_connections w sid")
  case None
  then show ?thesis
    by (auto simp: connect_register_def Let_def members_def)
next
  case (Some cs)
  with assms obtain meta where "sessions w sid = Some meta" by auto
  with Some show ?thesis
    by (auto simp: connect_register_def Let_def members_def fun_upd_idem)
qed


lemma send_personal_message_frame:
  "active_connections (send_personal_message m ws w) = active_connections w"
  "user_connections (send_personal_message m ws w) = user_connections w"
  "sessions (send_personal_message m ws w) = sessions w"
  "user_id_connections (send_personal_message m ws w) = user_id_connections w"
  "store (send_personal_message m ws w) = store w"
  "event_log (send_personal_message m ws w) = event_log w"
  "socket_ok (send_personal_message m ws w) = socket_ok w"
  "scheduled (send_personal_message m ws w) = scheduled w"
  "delivered (send_personal_message m ws w) c
     = (if c = ws \<and> socket_ok w ws then delivered w c @ [m] else delivered w c)"
  by (simp_all add: send_personal_message_def send_text_def)

lemma connect_persist_frame:
  "active_connections (connect_persist sid uid ui now w) = active_connections w"
  "user_connections (connect_persist sid uid ui now w) = user_connections w"
  "sessions (connect_persist sid uid ui now w) = sessions w"
  "user_id_connections (connect_persist sid uid ui now w) = user_id_connections w"
  "socket_ok (connect_persist sid uid ui now w) = socket_ok w"
  "scheduled (connect_persist sid uid ui now w) = scheduled w"
  "delivered (connect_persist sid uid ui now w) = delivered w"
  by (simp_all add: connect_persist_def split: option.splits sum.splits)

lemma connect_persist_rejected:
  assumes "store w sid = Some s"
    and "add_participant s uid (display_name ui uid) EDITOR now = Inl e"
  shows "connect_persist sid uid ui now w = w"
  using assms by (simp add: connect_persist_def)

lemma members_frame: "active_connections w' = active_connections w \<Longrightarrow> members w' = members w"
  by (simp add: members_def fun_eq_iff)

lemma connect_unfold:
  assumes cover: "active_connections w sid \<noteq> None \<longrightarrow> sessions w sid \<noteq> None"
    and user: "resolve_user user_info fresh = (uid, ui)"
  obtains w1 w2 meta cs where
    "connect_register ws sid uid ui now w = Inr w1"
    "active_connections w1 = (active_connections w)(sid \<mapsto> set_add ws (members w sid))"
    "user_connections w1 = (user_connections w)(ws \<mapsto> \<lparr>conn_session_id = sid, conn_user_info = ui\<rparr>)"
    "dom (sessions w1) = insert sid (dom (sessions w))"
    "store w1 = store w" "event_log w1 = event_log w" "socket_ok w1 = socket_ok w"
    "delivered w1 = delivered w" "scheduled w1 = scheduled w"
    "w2 = foldl (broadcast_step sid (UserJoined ui (length (members w1 sid))) (Some ws)) w1 (members w1 sid)"
    "connect_join ws sid user_info fresh now w = Inr w2"
    "sessions w2 sid = Some meta" "active_connections w2 sid = Some cs"
    "connect_rest ws sid user_info fresh now w2
       = Inr (connect_persist sid uid ui now
               (send_personal_message (SessionInfo sid (meta_participants meta) (length cs)) ws w2))"
    "connect ws sid user_info fresh now w
       = Inr (connect_persist sid uid ui now
               (send_personal_message (SessionInfo sid (meta_participants meta) (length cs)) ws w2))"
proof -
  from connect_register_ok [OF cover, of ws uid ui now] obtain w1 where w1:
    "connect_register ws sid uid ui now w = Inr w1"
    "active_connections w1 = (active_connections w)(sid \<mapsto> set_add ws (members w sid))"
    "user_connections w1 = (user_connections w)(ws \<mapsto> \<lparr>conn_session_id = sid, conn_user_info = ui\<rparr>)"
    "dom (sessions w1) = insert sid (dom (sessions w))"
    "store w1 = store w" "event_log w1 = event_log w" "socket_ok w1 = socket_ok w"
    "delivered w1 = delivered w" "scheduled w1 = scheduled w"
    by blast
  define w2 where
    "w2 = foldl (broadcast_step sid (UserJoined ui (length (members w1 sid))) (Some ws)) w1 (members w1 sid)"
  have a1: "active_connections w1 sid = Some (members w1 sid)"
    using w1(2) by (simp add: members_def)
  have notify: "connect_notify ws sid ui w1 = Inr w2"
    using a1 by (simp add: connect_notify_def broadcast_to_session_fold w2_def)
  have join: "connect_join ws sid user_info fresh now w = Inr w2"
    using user w1(1) notify by (simp add: connect_join_def and_then_def)
  have "sessions w2 = sessions w1"
    by (simp add: w2_def fold_broadcast_frame)
  with w1(4) obtain meta where meta: "sessions w2 sid = Some meta"
    by (metis domD insertI1)
  have "active_connections w1 sid \<noteq> None" using a1 by simp
  from fold_broadcast_members [OF this] obtain cs where cs: "active_connections w2 sid = Some cs"
    unfolding w2_def by blast
  have rest: "connect_rest ws sid user_info fresh now w2
       = Inr (connect_persist sid uid ui now
               (send_personal_message (SessionInfo sid (meta_participants meta) (length cs)) ws w2))"
    using user meta cs by (simp add: connect_rest_def connect_snapshot_def and_then_def)
  have "connect ws sid user_info fresh now w
       = Inr (connect_persist sid uid ui now
               (send_personal_message (SessionInfo sid (meta_participants meta) (length cs)) ws w2))"
    using join rest by (simp add: connect_def and_then_def)
  with w1 w2_def join meta cs rest show ?thesis by (rule that)
qed


text \<open>
  Scenario 1 of the specification: session \<open>S\<close> has a durable document of capacity 2;
  Ann and Bob have connected, and both are on the durable roster.
\<close>

definition standup :: world where
  "standup = run_steps
     (initial_world [''S'' \<mapsto> fresh_session ''ann'' ''Standup'' ''AB12CD34'' 2 0] (\<lambda>_. True))
     [Connect 1 ''S'' ann ''u1'' 1, Connect 2 ''S'' bob ''u2'' 2]"

definition standup_doc :: CollaborationSession where
  "standup_doc =
     \<lparr>host_user_id = ''ann'', name = ''Standup'', session_code = ''AB12CD34'',
      session_is_active = True, max_participants = 2,
      participants = [new_participant ''ann'' ''Ann'' EDITOR 1, new_participant ''bob'' ''Bob'' EDITOR 2],
      shared_code = None, created_at = 0, ended_at = None, session_last_activity = 2\<rparr>"

lemma standup_fields:
  "active_connections standup ''S'' = Some [1, 2]"
  "user_connections standup 3 = None"
  "user_id_connections standup ''cat'' = None"
  "sessions standup ''S'' = Some \<lparr>meta_id = ''S'', meta_created_at = 1, meta_participants = [ann, bob]\<rparr>"
  "store standup ''S'' = Some standup_doc"
  "socket_ok standup = (\<lambda>_. True)"
  "delivered standup 1 = [SessionInfo ''S'' [ann] 1, UserJoined bob 2]"
  "delivered standup 2 = [SessionInfo ''S'' [ann, bob] 2]"
  "delivered standup 3 = []"
  by (simp_all add: standup_def standup_doc_def run_steps_def initial_world_def connect_defs
      ann_def bob_def fresh_session_def add_participant_def display_name_def new_participant_def)

text \<open>
  C1, as stated, fails: with the durable session at its capacity of 2, Cat's
  \<open>connect\<close> raises nothing, registers socket 3 in the session, adds Cat to the
  in-memory roster and sends socket 3 a snapshot with three participants.
\<close>

theorem C1_counterexample:
  "map_option get_participant_count (store standup ''S'') = Some 2 \<and>
   map_option max_participants (store standup ''S'') = Some 2 \<and>
   \<not> isl (connect 3 ''S'' cat ''u3'' 3 standup) \<and>
   members (world_of (connect 3 ''S'' cat ''u3'' 3 standup)) ''S'' = [1, 2, 3] \<and>
   user_connections (world_of (connect 3 ''S'' cat ''u3'' 3 standup)) 3
     = Some \<lparr>conn_session_id = ''S'', conn_user_info = cat\<rparr> \<and>
   map_option meta_participants (sessions (world_of (connect 3 ''S'' cat ''u3'' 3 standup)) ''S'')
     = Some [ann, bob, cat] \<and>
   delivered (world_of (connect 3 ''S'' cat ''u3'' 3 standup)) 3
     = [SessionInfo ''S'' [ann, bob, cat] 3]"
  by (simp add: standup_fields connect_defs standup_doc_def get_participant_count_def
      get_active_participants_def new_participant_def add_participant_def cat_def ann_def bob_def)


text \<open>
  C1, amended. Take a registry whose sessions are covered and a session \<open>sid\<close> whose
  durable document has as many active participants as \<open>max_participants\<close> allows. A
  \<open>connect\<close> to \<open>sid\<close> that runs from its first line to its last with no other
  coroutine in between does not reject the join: it raises nothing and the socket is
  registered in the session's connection set and in \<open>user_connections\<close>. The capacity
  limit acts only on the best-effort persistence: \<open>add_participant\<close> raises the capacity
  error, \<open>connect\<close> catches it, and the durable roster and the event collection stay
  unchanged.
\<close>

theorem C1_full_session_join_not_rejected:
  assumes "store w sid = Some s"
    and "max_participants s \<le> int (get_participant_count s)"
    and "active_connections w sid \<noteq> None \<longrightarrow> sessions w sid \<noteq> None"
  shows "\<not> isl (connect ws sid user_info fresh now w) \<and>
         ws \<in> set (members (world_of (connect ws sid user_info fresh now w)) sid) \<and>
         user_connections (world_of (connect ws sid user_info fresh now w)) ws
           = Some \<lparr>conn_session_id = sid, conn_user_info = snd (resolve_user user_info fresh)\<rparr> \<and>
         add_participant s (fst (resolve_user user_info fresh))
             (display_name (snd (resolve_user user_info fresh)) (fst (resolve_user user_info fresh)))
             EDITOR now = Inl capacity_error \<and>
         store (world_of (connect ws sid user_info fresh now w)) = store w \<and>
         event_log (world_of (connect ws sid user_info fresh now w)) = event_log w"
proof -
  obtain uid ui where user: "resolve_user user_info fresh = (uid, ui)"
    by (cases "resolve_user user_info fresh")
  obtain w1 w2 meta cs where u:
    "active_connections w1 = (active_connections w)(sid \<mapsto> set_add ws (members w sid))"
    "user_connections w1 = (user_connections w)(ws \<mapsto> \<lparr>conn_session_id = sid, conn_user_info = ui\<rparr>)"
    "store w1 = store w" "event_log w1 = event_log w"
    "w2 = foldl (broadcast_step sid (UserJoined ui (length (members w1 sid))) (Some ws)) w1 (members w1 sid)"
    "connect ws sid user_info fresh now w
       = Inr (connect_persist sid uid ui now
               (send_personal_message (SessionInfo sid (meta_participants meta) (length cs)) ws w2))"
    "sessions w2 sid = Some meta" "active_connections w2 sid = Some cs"
  proof (rule connect_unfold [OF assms(3) user, of ws now])
    fix w1 w2 meta cs
    assume "active_connections w1 = (active_connections w)(sid \<mapsto> set_add ws (members w sid))"
      "user_connections w1 = (user_connections w)(ws \<mapsto> \<lparr>conn_session_id = sid, conn_user_info = ui\<rparr>)"
      "store w1 = store w" "event_log w1 = event_log w"
      "w2 = foldl (broadcast_step sid (UserJoined ui (length (members w1 sid))) (Some ws)) w1 (members w1 sid)"
      "connect ws sid user_info fresh now w
         = Inr (connect_persist sid uid ui now
               (send_personal_message (SessionInfo sid (meta_participants meta) (length cs)) ws w2))"
      "sessions w2 sid = Some meta" "active_connections w2 sid = Some cs"
    then show thesis by (rule that)
  qed
  let ?w3 = "send_personal_message (SessionInfo sid (meta_participants meta) (length cs)) ws w2"
  have rejected: "add_participant s uid (display_name ui uid) EDITOR now = Inl capacity_error"
    using assms(2) unfolding get_participant_count_def by (rule add_rejected_at_capacity)
  have store2: "store w2 = store w" "event_log w2 = event_log w"
    by (simp_all add: u(5) fold_broadcast_frame u(3,4))
  have "store ?w3 sid = Some s"
    by (simp add: send_personal_message_frame store2 assms(1))
  from connect_persist_rejected [OF this rejected]
  have result: "connect ws sid user_info fresh now w = Inr ?w3"
    using u(6) by simp
  have dom1: "active_connections w1 sid \<noteq> None" by (simp add: u(1))
  have m1: "ws \<in> set (members w1 sid)"
    by (simp add: members_def u(1) set_add_def)
  have nf: "\<not> send_fails w1 (Some ws) (members w1 sid) ws"
    by (simp add: send_fails_def)
  have "ws \<in> set (members w2 sid)"
    using m1 nf fold_broadcast_members [OF dom1, of "UserJoined ui (length (members w1 sid))" "Some ws" "members w1 sid"]
    by (simp add: u(5) members_def)
  then have mem: "ws \<in> set (members ?w3 sid)"
    by (simp add: members_def send_personal_message_frame)
  have "user_connections w2 ws = Some \<lparr>conn_session_id = sid, conn_user_info = ui\<rparr>"
    unfolding u(5) fold_broadcast_user_connections using nf by (simp add: u(2))
  then have uc: "user_connections ?w3 ws = Some \<lparr>conn_session_id = sid, conn_user_info = ui\<rparr>"
    by (simp add: send_personal_message_frame)
  show ?thesis
    using result mem uc rejected store2 user
    by (simp add: world_of_def send_personal_message_frame)
qed

theorem C1_witness:
  "store standup ''S'' = Some standup_doc \<and>
   max_participants standup_doc \<le> int (get_participant_count standup_doc) \<and>
   sessions standup ''S'' \<noteq> None \<and>
   \<not> isl (connect 3 ''S'' cat ''u3'' 3 standup) \<and>
   3 \<in> set (members (world_of (connect 3 ''S'' cat ''u3'' 3 standup)) ''S'') \<and>
   add_participant standup_doc ''cat'' ''Cat'' EDITOR 3 = Inl capacity_error \<and>
   store (world_of (connect 3 ''S'' cat ''u3'' 3 standup)) = store standup \<and>
   event_log (world_of (connect 3 ''S'' cat ''u3'' 3 standup)) = event_log standup"
proof -
  have a: "store standup ''S'' = Some standup_doc" by (rule standup_fields)
  have b: "max_participants standup_doc \<le> int (get_participant_count standup_doc)"
    by (simp add: standup_doc_def get_participant_count_def get_active_participants_def
        new_participant_def)
  have c: "sessions standup ''S'' \<noteq> None" by (simp add: standup_fields)
  then have c': "active_connections standup ''S'' \<noteq> None \<longrightarrow> sessions standup ''S'' \<noteq> None"
    by simp
  from C1_full_session_join_not_rejected [OF a b c', of 3 cat "''u3''" 3] a b c
  show ?thesis by (simp add: resolve_user_def cat_def display_name_def)
qed


subsection \<open>The order of snapshot and broadcasts\<close>

text \<open>
  A step is atomic when it is a whole method call: a schedule of atomic steps runs every
  \<open>connect\<close> from its first line to its last with no other coroutine in between.
\<close>

fun atomic_step :: "step \<Rightarrow> bool" where
  "atomic_step (Connect ws sid ui fresh now) = True"
| "atomic_step (ConnectJoin ws sid ui fresh now) = False"
| "atomic_step (ConnectRest ws sid ui fresh now) = False"
| "atomic_step (HandleMessage ws cm now) = True"
| "atomic_step (Disconnect ws) = True"
| "atomic_step (RunScheduled now) = True"

lemma inv_except_cong:
  assumes "delivered w' = delivered w" and "socket_ok w' = socket_ok w"
    and "active_connections w' = active_connections w" and "sessions w' = sessions w"
  shows "inv_except x w' = inv_except x w"
  using assms by (simp add: inv_except_def snapshot_first_def sessions_cover_def members_def)

lemma inv_except_shrink:
  assumes "inv_except x w"
    and "delivered w' = delivered w" and "socket_ok w' = socket_ok w"
    and "\<And>s. set (members w' s) \<subseteq> set (members w s)"
    and "sessions_cover w'"
  shows "inv_except x w'"
proof -
  have 1: "snapshot_first w' c" for c
    using assms(1,2) by (simp add: inv_except_def snapshot_first_def)
  have 2: "delivered w' c \<noteq> []" if "c \<in> set (members w' s)" "socket_ok w' c" "Some c \<noteq> x" for c s
  proof -
    from that(1) assms(4) have "c \<in> set (members w s)" by blast
    with that(2,3) assms(1,3) have "delivered w c \<noteq> []" by (simp add: inv_except_def)
    with assms(2) show ?thesis by simp
  qed
  from 1 2 assms(5) show ?thesis unfolding inv_except_def by blast
qed

lemma broadcast_members_subset:
  "set (members (foldl (broadcast_step sid m ex) w (members w sid)) s) \<subseteq> set (members w s)"
proof (cases "s = sid")
  case False
  then show ?thesis by (simp add: members_def fold_broadcast_other_session)
next
  case True
  show ?thesis
  proof (cases "active_connections w sid")
    case None
    then show ?thesis using True by (simp add: members_def)
  next
    case (Some cs)
    then have "active_connections w sid \<noteq> None" by simp
    from fold_broadcast_members [OF this, of m ex "members w sid"] True show ?thesis
      by (auto simp: members_def)
  qed
qed

lemma broadcast_keeps_dom:
  "(active_connections (foldl (broadcast_step sid m ex) w (members w sid)) s \<noteq> None)
     = (active_connections w s \<noteq> None)"
proof (cases "s = sid")
  case False
  then show ?thesis by (simp add: fold_broadcast_other_session)
next
  case True
  show ?thesis
  proof (cases "active_connections w sid")
    case None
    then show ?thesis using True by (simp add: members_def)
  next
    case (Some cs)
    then have "active_connections w sid \<noteq> None" by simp
    from fold_broadcast_members [OF this, of m ex "members w sid"] True Some show ?thesis
      by simp
  qed
qed

lemma broadcast_inv:
  assumes inv: "inv_except x w" and ex: "x = None \<or> ex = x"
  shows "inv_except x (foldl (broadcast_step sid m ex) w (members w sid))"
proof -
  let ?w = "foldl (broadcast_step sid m ex) w (members w sid)"
  have first: "snapshot_first w c" for c using inv by (simp add: inv_except_def)
  have sent: "delivered w c \<noteq> []" if "c \<in> set (members w s)" "socket_ok w c" "Some c \<noteq> x" for c s
    using inv that by (simp add: inv_except_def)
  have cover: "sessions_cover w" using inv by (simp add: inv_except_def)
  have ok: "socket_ok ?w = socket_ok w" by (simp add: fold_broadcast_frame)
  have 1: "snapshot_first ?w c" for c
  proof (cases "delivered w c")
    case Nil
    show ?thesis
    proof (cases "c \<in> set (members w sid) \<and> socket_ok w c \<and> ex \<noteq> Some c")
      case True
      then have "Some c \<noteq> x" using ex by auto
      with True sent have "delivered w c \<noteq> []" by blast
      with Nil show ?thesis by simp
    next
      case False
      then have "delivered ?w c = delivered w c"
        by (auto simp: fold_broadcast_delivered)
      with first [of c] show ?thesis by (simp add: snapshot_first_def)
    qed
  next
    case (Cons m0 ms)
    with first [of c] show ?thesis
      by (simp add: snapshot_first_def fold_broadcast_delivered)
  qed
  have 2: "delivered ?w c \<noteq> []" if "c \<in> set (members ?w s)" "socket_ok ?w c" "Some c \<noteq> x" for c s
  proof -
    from that(1) have "c \<in> set (members w s)" using broadcast_members_subset by blast
    with that(2,3) ok have "delivered w c \<noteq> []" using sent by simp
    then show ?thesis by (simp add: fold_broadcast_delivered)
  qed
  have 3: "sessions_cover ?w"
    unfolding sessions_cover_def
  proof (intro allI impI)
    fix s assume "active_connections ?w s \<noteq> None"
    then have "active_connections w s \<noteq> None"
      using broadcast_keeps_dom [of sid m ex w s] by blast
    with cover have "sessions w s \<noteq> None" by (simp add: sessions_cover_def)
    then show "sessions ?w s \<noteq> None" by (simp add: fold_broadcast_frame)
  qed
  from 1 2 3 show ?thesis unfolding inv_except_def by blast
qed


lemma broadcast_to_session_inv:
  assumes "inv_except None w"
  shows "inv_except None (world_of (broadcast_to_session sid m ex w))"
  using broadcast_inv [OF assms, of ex sid m]
  by (simp add: broadcast_to_session_fold world_of_def)

lemma connect_inv:
  assumes inv: "inv_except None w"
  shows "inv_except None (world_of (connect ws sid user_info fresh now w))"
proof -
  have cover: "active_connections w sid \<noteq> None \<longrightarrow> sessions w sid \<noteq> None"
    using inv by (simp add: inv_except_def sessions_cover_def)
  obtain uid ui where user: "resolve_user user_info fresh = (uid, ui)"
    by (cases "resolve_user user_info fresh")
  obtain w1 w2 meta cs where u:
    "active_connections w1 = (active_connections w)(sid \<mapsto> set_add ws (members w sid))"
    "dom (sessions w1) = insert sid (dom (sessions w))"
    "socket_ok w1 = socket_ok w" "delivered w1 = delivered w"
    "w2 = foldl (broadcast_step sid (UserJoined ui (length (members w1 sid))) (Some ws)) w1 (members w1 sid)"
    "sessions w2 sid = Some meta" "active_connections w2 sid = Some cs"
    "connect ws sid user_info fresh now w
       = Inr (connect_persist sid uid ui now
               (send_personal_message (SessionInfo sid (meta_participants meta) (length cs)) ws w2))"
  proof (rule connect_unfold [OF cover user, of ws now])
    fix w1 w2 meta cs
    assume "active_connections w1 = (active_connections w)(sid \<mapsto> set_add ws (members w sid))"
      "dom (sessions w1) = insert sid (dom (sessions w))"
      "socket_ok w1 = socket_ok w" "delivered w1 = delivered w"
      "w2 = foldl (broadcast_step sid (UserJoined ui (length (members w1 sid))) (Some ws)) w1 (members w1 sid)"
      "sessions w2 sid = Some meta" "active_connections w2 sid = Some cs"
      "connect ws sid user_info fresh now w
         = Inr (connect_persist sid uid ui now
               (send_personal_message (SessionInfo sid (meta_participants meta) (length cs)) ws w2))"
    then show thesis by (rule that)
  qed
  let ?snap = "SessionInfo sid (meta_participants meta) (length cs)"
  let ?w3 = "send_personal_message ?snap ws w2"
  have first: "snapshot_first w c" for c using inv by (simp add: inv_except_def)
  have sent: "delivered w c \<noteq> []" if "c \<in> set (members w s)" "socket_ok w c" for c s
    using inv that by (simp add: inv_except_def)
  have inv1: "inv_except (Some ws) w1"
  proof -
    have a: "snapshot_first w1 c" for c using first [of c] by (simp add: snapshot_first_def u(4))
    have b: "delivered w1 c \<noteq> []"
      if "c \<in> set (members w1 s)" "socket_ok w1 c" "Some c \<noteq> Some ws" for c s
    proof -
      from that(1,3) have "c \<in> set (members w s)"
        by (auto simp: members_def u(1) set_add_def split: if_splits)
      with that(2) show ?thesis using sent by (simp add: u(3,4))
    qed
    have c: "sessions_cover w1"
      unfolding sessions_cover_def
    proof (intro allI impI)
      fix s assume s: "active_connections w1 s \<noteq> None"
      show "sessions w1 s \<noteq> None"
      proof (cases "s = sid")
        case True
        then have "s \<in> dom (sessions w1)" by (simp add: u(2))
        then show ?thesis by blast
      next
        case False
        with s have "active_connections w s \<noteq> None" by (simp add: u(1))
        with inv have "s \<in> dom (sessions w)" by (auto simp: inv_except_def sessions_cover_def)
        then have "s \<in> dom (sessions w1)" by (simp add: u(2))
        then show ?thesis by blast
      qed
    qed
    from a b c show ?thesis unfolding inv_except_def by blast
  qed
  have inv2: "inv_except (Some ws) w2"
    unfolding u(5) using inv1 by (rule broadcast_inv) simp
  have inv3: "inv_except None ?w3"
  proof -
    have a: "snapshot_first ?w3 c" for c
    proof -
      have "snapshot_first w2 c" using inv2 by (simp add: inv_except_def)
      then show ?thesis
        by (cases "delivered w2 c") (auto simp: snapshot_first_def send_personal_message_frame)
    qed
    have b: "delivered ?w3 c \<noteq> []" if "c \<in> set (members ?w3 s)" "socket_ok ?w3 c" for c s
    proof (cases "c = ws")
      case True
      with that(2) show ?thesis by (simp add: send_personal_message_frame)
    next
      case False
      from that have "c \<in> set (members w2 s)" "socket_ok w2 c"
        by (simp_all add: members_def send_personal_message_frame)
      with False inv2 have "delivered w2 c \<noteq> []" by (simp add: inv_except_def)
      then show ?thesis by (simp add: send_personal_message_frame)
    qed
    have c: "sessions_cover ?w3"
      using inv2 by (simp add: inv_except_def sessions_cover_def send_personal_message_frame)
    from a b c show ?thesis unfolding inv_except_def by blast
  qed
  have "inv_except None (connect_persist sid uid ui now ?w3) = inv_except None ?w3"
    by (rule inv_except_cong) (simp_all add: connect_persist_frame)
  with inv3 show ?thesis by (simp add: u(8) world_of_def)
qed

lemma handle_message_inv:
  assumes "inv_except None w"
  shows "inv_except None (world_of (handle_message ws cm now w))"
proof (cases "user_connections w ws")
  case None
  with assms show ?thesis by (simp add: handle_message_def world_of_def)
next
  case (Some user_data)
  then show ?thesis
    using broadcast_to_session_inv [OF assms] by (simp add: handle_message_def Let_def)
qed

lemma run_next_inv:
  assumes "inv_except None w"
  shows "inv_except None (world_of (run_next now w))"
proof (cases "scheduled w")
  case Nil
  with assms show ?thesis by (simp add: run_next_def world_of_def)
next
  case (Cons t ts)
  have "inv_except None (w\<lparr>scheduled := ts\<rparr>) = inv_except None w"
    by (rule inv_except_cong) simp_all
  with assms have inv': "inv_except None (w\<lparr>scheduled := ts\<rparr>)" by simp
  show ?thesis
  proof (cases t)
    case (BroadcastTask sid m)
    with Cons show ?thesis
      using broadcast_to_session_inv [OF inv'] by (simp add: run_next_def)
  next
    case (PersistLeave sid uid_opt ui)
    have "inv_except None (world_of (run_task now (PersistLeave sid uid_opt ui) (w\<lparr>scheduled := ts\<rparr>)))
            = inv_except None (w\<lparr>scheduled := ts\<rparr>)"
      by (rule inv_except_cong) (simp_all add: world_of_def split: option.splits)
    with inv' PersistLeave Cons show ?thesis by (simp add: run_next_def)
  qed
qed


lemma forget_socket_frame:
  "active_connections (forget_socket ws sid ui w) = active_connections w"
  "sessions (forget_socket ws sid ui w) = sessions w"
  "delivered (forget_socket ws sid ui w) = delivered w"
  "socket_ok (forget_socket ws sid ui w) = socket_ok w"
  "store (forget_socket ws sid ui w) = store w"
  "event_log (forget_socket ws sid ui w) = event_log w"
  "user_connections (forget_socket ws sid ui w) = (user_connections w)(ws := None)"
  by (simp_all add: forget_socket_def Let_def split: option.splits)

lemma leave_session_frame:
  assumes "sessions_cover w"
  shows "\<exists>w'. leave_session ws sid ui w = Inr w' \<and>
           delivered w' = delivered w \<and> socket_ok w' = socket_ok w \<and>
           store w' = store w \<and> event_log w' = event_log w \<and>
           user_connections w' = user_connections w \<and>
           user_id_connections w' = user_id_connections w \<and>
           (\<forall>s. set (members w' s) \<subseteq> set (members w s)) \<and>
           ws \<notin> set (members w' sid) \<and>
           sessions_cover w'"
proof (cases "active_connections w sid")
  case None
  with assms show ?thesis by (simp add: leave_session_def members_def)
next
  case (Some cs)
  with assms obtain meta where meta: "sessions w sid = Some meta"
    by (auto simp: sessions_cover_def)
  show ?thesis
  proof (cases "removeAll ws cs = []")
    case True
    with Some meta assms show ?thesis
      by (auto simp: leave_session_def Let_def members_def sessions_cover_def)
  next
    case False
    with Some meta assms show ?thesis
      by (auto simp: leave_session_def Let_def members_def sessions_cover_def)
  qed
qed

lemma disconnect_inv:
  assumes inv: "inv_except None w"
  shows "inv_except None (world_of (disconnect ws w))"
proof (cases "user_connections w ws")
  case None
  with inv show ?thesis by (simp add: disconnect_def world_of_def)
next
  case (Some user_data)
  have cover: "sessions_cover w" using inv by (simp add: inv_except_def)
  from leave_session_frame [OF cover, of ws "conn_session_id user_data" "conn_user_info user_data"]
  obtain w' where w':
    "leave_session ws (conn_session_id user_data) (conn_user_info user_data) w = Inr w'"
    "delivered w' = delivered w" "socket_ok w' = socket_ok w"
    "\<forall>s. set (members w' s) \<subseteq> set (members w s)" "sessions_cover w'"
    by blast
  let ?w2 = "forget_socket ws (conn_session_id user_data) (conn_user_info user_data) w'"
  have res: "world_of (disconnect ws w) = ?w2"
    using Some w'(1) by (simp add: disconnect_def and_then_def world_of_def)
  have "inv_except None ?w2"
  proof (rule inv_except_shrink [OF inv])
    show "delivered ?w2 = delivered w" by (simp add: forget_socket_frame w'(2))
    show "socket_ok ?w2 = socket_ok w" by (simp add: forget_socket_frame w'(3))
    show "set (members ?w2 s) \<subseteq> set (members w s)" for s
      using w'(4) by (simp add: members_def forget_socket_frame)
    show "sessions_cover ?w2"
      using w'(5) by (simp add: sessions_cover_def forget_socket_frame)
  qed
  with res show ?thesis by simp
qed

lemma initial_world_inv: "inv_except None (initial_world db ok)"
  by (simp add: inv_except_def initial_world_def snapshot_first_def members_def sessions_cover_def)

lemma exec_step_inv:
  assumes "inv_except None w" and "atomic_step st"
  shows "inv_except None (exec_step w st)"
  using assms
  by (cases st) (simp_all add: connect_inv handle_message_inv disconnect_inv run_next_inv)

lemma run_steps_inv:
  assumes "inv_except None w" and "list_all atomic_step steps"
  shows "inv_except None (run_steps w steps)"
  using assms unfolding run_steps_def
  by (induction steps arbitrary: w) (simp_all add: exec_step_inv)


text \<open>
  Two schedules for Ann (socket 1) and Bob (socket 2). In \<open>race_schedule\<close> Bob's
  \<open>connect\<close> is suspended at the end of its \<open>user_joined\<close> broadcast, and the chat
  message that Ann's handler has received is broadcast before Bob's \<open>connect\<close> resumes.
  In \<open>calm_schedule\<close> the same chat message arrives after Bob's \<open>connect\<close> has
  finished.
\<close>

definition chat_hi :: client_message where
  "chat_hi = \<lparr>msg_type = ''chat_message'', msg_body = ''hi''\<rparr>"


definition calm_schedule :: "step list" where
  "calm_schedule =
     [Connect 1 ''S'' ann ''u1'' 1, Connect 2 ''S'' bob ''u2'' 2, HandleMessage 1 chat_hi 3]"

lemmas schedule_defs =
  run_steps_def initial_world_def connect_defs handle_message_def Let_def ann_def bob_def
  chat_hi_def

lemma calm_schedule_run:
  "delivered (run_steps (initial_world Map.empty (\<lambda>_. True)) calm_schedule) 2
     = [SessionInfo ''S'' [ann, bob] 2, Relayed ''chat_message'' ann 3 ''hi'']"
  "members (run_steps (initial_world Map.empty (\<lambda>_. True)) calm_schedule) ''S'' = [1, 2]"
  "socket_ok (run_steps (initial_world Map.empty (\<lambda>_. True)) calm_schedule) 2"
  by (simp_all add: calm_schedule_def schedule_defs)

subsection \<open>What disconnect does\<close>

text \<open>
  The sockets registered for a user id, and the in-memory roster of a session; both are
  empty when the key is missing.
\<close>

definition user_sockets :: "world \<Rightarrow> string \<Rightarrow> nat list" where
  "user_sockets w uid = (case user_id_connections w uid of None \<Rightarrow> [] | Some l \<Rightarrow> l)"

definition roster_of :: "world \<Rightarrow> string \<Rightarrow> user_info list" where
  "roster_of w sid = (case sessions w sid of None \<Rightarrow> [] | Some meta \<Rightarrow> meta_participants meta)"

text \<open>The tasks a \<open>disconnect\<close> of a socket of session \<open>sid\<close> schedules.\<close>

definition leave_tasks :: "world \<Rightarrow> nat \<Rightarrow> string \<Rightarrow> user_info \<Rightarrow> scheduled_task list" where
  "leave_tasks w ws sid ui =
     (if removeAll ws (members w sid) = [] then []
      else [BroadcastTask sid (UserLeft ui (length (removeAll ws (members w sid))))]) @
     (if sid = [] then [] else [PersistLeave sid (info_id ui) ui])"

lemma forget_socket_user_sockets:
  assumes "info_id ui = Some uid" and "uid \<noteq> []"
  shows "ws \<notin> set (user_sockets (forget_socket ws sid ui w) uid)"
  using assms
  by (auto simp: forget_socket_def user_sockets_def Let_def split: option.splits)

lemma forget_socket_scheduled:
  "scheduled (forget_socket ws sid ui w)
     = scheduled w @ (if sid = [] then [] else [PersistLeave sid (info_id ui) ui])"
  by (simp add: forget_socket_def Let_def split: option.splits)

lemma leave_session_result:
  assumes "sessions_cover w"
  shows "\<exists>w'. leave_session ws sid ui w = Inr w' \<and>
           ws \<notin> set (members w' sid) \<and>
           store w' = store w \<and> event_log w' = event_log w \<and>
           scheduled w' = scheduled w @
             (if removeAll ws (members w sid) = [] then []
              else [BroadcastTask sid (UserLeft ui (length (removeAll ws (members w sid))))]) \<and>
           (active_connections w sid \<noteq> None \<longrightarrow>
              (if removeAll ws (members w sid) = []
               then active_connections w' sid = None \<and> sessions w' sid = None
               else active_connections w' sid = Some (removeAll ws (members w sid)) \<and>
                    roster_of w' sid = filter (\<lambda>p. info_id p \<noteq> info_id ui) (roster_of w sid)))"
proof (cases "active_connections w sid")
  case None
  then show ?thesis by (simp add: leave_session_def members_def)
next
  case (Some cs)
  with assms obtain meta where meta: "sessions w sid = Some meta"
    by (auto simp: sessions_cover_def)
  show ?thesis
  proof (cases "removeAll ws cs = []")
    case True
    with Some meta show ?thesis
      by (simp add: leave_session_def Let_def members_def)
  next
    case False
    with Some meta show ?thesis
      by (simp add: leave_session_def Let_def members_def roster_of_def)
  qed
qed


text \<open>
  C9, amended. For every \<open>disconnect\<close> of a registered socket, in a registry whose
  sessions are covered: nothing is raised; the socket is removed from the session's
  connection set, from \<open>user_connections\<close> and from the user's set in
  \<open>user_id_connections\<close>. If connections remain in the session, the user is filtered
  out of the in-memory roster and a \<open>user_left\<close> broadcast is scheduled, whether or not
  the user has another live connection there; if none remains, the session's in-memory
  entries are discarded. \<open>disconnect\<close> itself leaves the store untouched and schedules
  the persistence task, which removes the user from the durable roster of the session
  document and keeps the document.
\<close>

theorem C9_disconnect_removes_user_on_every_leave:
  assumes "user_connections w ws = Some ud" and "sessions_cover w"
  shows "\<not> isl (disconnect ws w) \<and>
         ws \<notin> set (members (world_of (disconnect ws w)) (conn_session_id ud)) \<and>
         user_connections (world_of (disconnect ws w)) ws = None \<and>
         (\<forall>uid. info_id (conn_user_info ud) = Some uid \<longrightarrow> uid \<noteq> [] \<longrightarrow>
            ws \<notin> set (user_sockets (world_of (disconnect ws w)) uid)) \<and>
         scheduled (world_of (disconnect ws w))
           = scheduled w @ leave_tasks w ws (conn_session_id ud) (conn_user_info ud) \<and>
         (active_connections w (conn_session_id ud) \<noteq> None \<longrightarrow>
            (if removeAll ws (members w (conn_session_id ud)) = []
             then active_connections (world_of (disconnect ws w)) (conn_session_id ud) = None \<and>
                  sessions (world_of (disconnect ws w)) (conn_session_id ud) = None
             else active_connections (world_of (disconnect ws w)) (conn_session_id ud)
                    = Some (removeAll ws (members w (conn_session_id ud))) \<and>
                  roster_of (world_of (disconnect ws w)) (conn_session_id ud)
                    = filter (\<lambda>p. info_id p \<noteq> info_id (conn_user_info ud))
                        (roster_of w (conn_session_id ud)))) \<and>
         store (world_of (disconnect ws w)) = store w \<and>
         (\<forall>s uid. store w (conn_session_id ud) = Some s \<longrightarrow>
            info_id (conn_user_info ud) = Some uid \<longrightarrow> uid \<noteq> [] \<longrightarrow>
            store (world_of (run_task now
                     (PersistLeave (conn_session_id ud) (info_id (conn_user_info ud)) (conn_user_info ud))
                     (world_of (disconnect ws w)))) (conn_session_id ud)
              = Some (remove_participant s uid now))"
proof -
  let ?sid = "conn_session_id ud" and ?ui = "conn_user_info ud"
  from leave_session_result [OF assms(2), of ws ?sid ?ui] obtain w1 where w1:
    "leave_session ws ?sid ?ui w = Inr w1"
    "ws \<notin> set (members w1 ?sid)"
    "store w1 = store w"
    "scheduled w1 = scheduled w @
       (if removeAll ws (members w ?sid) = [] then []
        else [BroadcastTask ?sid (UserLeft ?ui (length (removeAll ws (members w ?sid))))])"
    "active_connections w ?sid \<noteq> None \<longrightarrow>
       (if removeAll ws (members w ?sid) = []
        then active_connections w1 ?sid = None \<and> sessions w1 ?sid = None
        else active_connections w1 ?sid = Some (removeAll ws (members w ?sid)) \<and>
             roster_of w1 ?sid = filter (\<lambda>p. info_id p \<noteq> info_id ?ui) (roster_of w ?sid))"
    by blast
  let ?w2 = "forget_socket ws ?sid ?ui w1"
  have res: "disconnect ws w = Inr ?w2"
    using assms(1) w1(1) by (simp add: disconnect_def and_then_def)
  have a: "ws \<notin> set (members ?w2 ?sid)"
    using w1(2) by (simp add: members_def forget_socket_frame)
  have b: "user_connections ?w2 ws = None" by (simp add: forget_socket_frame)
  have c: "ws \<notin> set (user_sockets ?w2 uid)" if "info_id ?ui = Some uid" "uid \<noteq> []" for uid
    using that by (rule forget_socket_user_sockets)
  have d: "scheduled ?w2 = scheduled w @ leave_tasks w ws ?sid ?ui"
    by (simp add: forget_socket_scheduled w1(4) leave_tasks_def)
  have e: "active_connections w ?sid \<noteq> None \<longrightarrow>
       (if removeAll ws (members w ?sid) = []
        then active_connections ?w2 ?sid = None \<and> sessions ?w2 ?sid = None
        else active_connections ?w2 ?sid = Some (removeAll ws (members w ?sid)) \<and>
             roster_of ?w2 ?sid = filter (\<lambda>p. info_id p \<noteq> info_id ?ui) (roster_of w ?sid))"
  proof -
    have "roster_of ?w2 ?sid = roster_of w1 ?sid"
      by (simp add: roster_of_def forget_socket_frame)
    with w1(5) show ?thesis by (simp add: forget_socket_frame)
  qed
  have f: "store ?w2 = store w" by (simp add: forget_socket_frame w1(3))
  have g: "store (world_of (run_task now (PersistLeave ?sid (info_id ?ui) ?ui) ?w2)) ?sid
             = Some (remove_participant s uid now)"
    if "store w ?sid = Some s" "info_id ?ui = Some uid" "uid \<noteq> []" for s uid
    using that f by (simp add: world_of_def)
  show ?thesis
    unfolding res using a b c d e f g by (simp add: world_of_def)
qed


text \<open>
  Ann has session \<open>S\<close> open on sockets 1 and 2, Bob on socket 3; the session has a
  durable document. In \<open>tabs_left\<close> socket 1 was closed and the two tasks that
  \<open>disconnect\<close> scheduled have run.
\<close>

definition tabs :: world where
  "tabs = run_steps
     (initial_world [''S'' \<mapsto> fresh_session ''ann'' ''Standup'' ''AB12CD34'' 5 0] (\<lambda>_. True))
     [Connect 1 ''S'' ann ''u1'' 1, Connect 2 ''S'' ann ''u2'' 2, Connect 3 ''S'' bob ''u3'' 3]"

definition tabs_left :: world where
  "tabs_left = run_steps tabs [Disconnect 1, RunScheduled 4, RunScheduled 5]"

definition tabs_doc :: CollaborationSession where
  "tabs_doc =
     \<lparr>host_user_id = ''ann'', name = ''Standup'', session_code = ''AB12CD34'',
      session_is_active = True, max_participants = 5,
      participants = [(new_participant ''ann'' ''Ann'' EDITOR 1)\<lparr>last_activity := 2\<rparr>,
                      new_participant ''bob'' ''Bob'' EDITOR 3],
      shared_code = None, created_at = 0, ended_at = None, session_last_activity = 3\<rparr>"

lemma tabs_fields:
  "active_connections tabs ''S'' = Some [1, 2, 3]"
  "user_connections tabs 1 = Some \<lparr>conn_session_id = ''S'', conn_user_info = ann\<rparr>"
  "user_connections tabs 2 = Some \<lparr>conn_session_id = ''S'', conn_user_info = ann\<rparr>"
  "user_connections tabs 3 = Some \<lparr>conn_session_id = ''S'', conn_user_info = bob\<rparr>"
  "user_id_connections tabs ''ann'' = Some [1, 2]"
  "sessions tabs ''S'' = Some \<lparr>meta_id = ''S'', meta_created_at = 1, meta_participants = [ann, bob]\<rparr>"
  "store tabs ''S'' = Some tabs_doc"
  "socket_ok tabs = (\<lambda>_. True)"
  "scheduled tabs = []"
  "delivered tabs 2 = [SessionInfo ''S'' [ann] 2, UserJoined bob 3]"
  "delivered tabs 3 = [SessionInfo ''S'' [ann, bob] 3]"
  by (simp_all add: tabs_def tabs_doc_def run_steps_def initial_world_def connect_defs
      ann_def bob_def fresh_session_def add_participant_def display_name_def new_participant_def
      del: One_nat_def)

lemma tabs_cover: "sessions_cover tabs"
proof -
  have "inv_except None tabs"
    unfolding tabs_def by (rule run_steps_inv [OF initial_world_inv]) simp
  then show ?thesis by (simp add: inv_except_def)
qed

lemmas leave_defs =
  disconnect_def leave_session_def forget_socket_def run_next_def broadcast_to_session_def
  send_text_def and_then_def world_of_def members_def Let_def

lemma tabs_left_fields:
  "members tabs_left ''S'' = [2, 3]"
  "user_connections tabs_left 2 = Some \<lparr>conn_session_id = ''S'', conn_user_info = ann\<rparr>"
  "user_sockets tabs_left ''ann'' = [2]"
  "roster_of tabs_left ''S'' = [bob]"
  "delivered tabs_left 2 = [SessionInfo ''S'' [ann] 2, UserJoined bob 3, UserLeft ann 2]"
  "delivered tabs_left 3 = [SessionInfo ''S'' [ann, bob] 3, UserLeft ann 2]"
  "map_option (map user_id \<circ> participants) (store tabs_left ''S'') = Some [''bob'']"
  by (simp_all add: tabs_left_def run_steps_def tabs_fields leave_defs user_sockets_def
      roster_of_def ann_def bob_def tabs_doc_def remove_participant_def new_participant_def
      del: One_nat_def)


text \<open>
  C9, as stated, fails: after the \<open>disconnect\<close> of socket 1 Ann still has socket 2
  live in the session, yet she is gone from the in-memory roster and from the durable
  roster, and Bob's socket has been sent \<open>user_left\<close> for her.
\<close>

theorem C9_counterexample:
  "user_connections tabs 1 = Some \<lparr>conn_session_id = ''S'', conn_user_info = ann\<rparr> \<and>
   members tabs_left ''S'' = [2, 3] \<and>
   user_connections tabs_left 2 = Some \<lparr>conn_session_id = ''S'', conn_user_info = ann\<rparr> \<and>
   roster_of tabs ''S'' = [ann, bob] \<and>
   roster_of tabs_left ''S'' = [bob] \<and>
   delivered tabs_left 3 = delivered tabs 3 @ [UserLeft ann 2] \<and>
   map_option (map user_id \<circ> participants) (store tabs ''S'') = Some [''ann'', ''bob''] \<and>
   map_option (map user_id \<circ> participants) (store tabs_left ''S'') = Some [''bob'']"
proof -
  have "roster_of tabs ''S'' = [ann, bob]" by (simp add: roster_of_def tabs_fields)
  moreover have "map_option (map user_id \<circ> participants) (store tabs ''S'') = Some [''ann'', ''bob'']"
    by (simp add: tabs_fields tabs_doc_def new_participant_def)
  ultimately show ?thesis
    by (simp add: tabs_fields tabs_left_fields del: One_nat_def)
qed

theorem C9_witness:
  "user_connections tabs 1 = Some \<lparr>conn_session_id = ''S'', conn_user_info = ann\<rparr> \<and>
   sessions_cover tabs \<and>
   \<not> isl (disconnect 1 tabs) \<and>
   1 \<notin> set (members (world_of (disconnect 1 tabs)) ''S'') \<and>
   user_connections (world_of (disconnect 1 tabs)) 1 = None \<and>
   1 \<notin> set (user_sockets (world_of (disconnect 1 tabs)) ''ann'') \<and>
   scheduled (world_of (disconnect 1 tabs))
     = [BroadcastTask ''S'' (UserLeft ann 2), PersistLeave ''S'' (Some ''ann'') ann] \<and>
   active_connections (world_of (disconnect 1 tabs)) ''S'' = Some [2, 3] \<and>
   roster_of (world_of (disconnect 1 tabs)) ''S'' = [bob] \<and>
   store (world_of (disconnect 1 tabs)) = store tabs"
proof -
  have a: "user_connections tabs 1 = Some \<lparr>conn_session_id = ''S'', conn_user_info = ann\<rparr>"
    by (rule tabs_fields)
  have m: "members tabs ''S'' = [1, 2, 3]" by (simp add: members_def tabs_fields)
  have r: "roster_of tabs ''S'' = [ann, bob]" by (simp add: roster_of_def tabs_fields)
  from C9_disconnect_removes_user_on_every_leave [OF a tabs_cover] a tabs_cover
  show ?thesis
    by (simp add: m r leave_tasks_def tabs_fields ann_def bob_def del: One_nat_def)
qed


subsection \<open>The snapshot and the broadcasts that follow it\<close>

text \<open>
  What a socket has seen. \<open>coherent known ms\<close> reads the messages \<open>ms\<close> in order,
  starting from the users \<open>known\<close>: a snapshot replaces the known users by its roster,
  \<open>user_joined\<close> adds its user, \<open>user_left\<close> must name a known user and removes
  that user, and a relayed message must come from a known user. A socket has a coherent
  view when its first message is the snapshot and what follows is coherent: no broadcast
  refers to a user it has not been told of.
\<close>

fun coherent :: "user_info list \<Rightarrow> message list \<Rightarrow> bool" where
  "coherent known [] = True"
| "coherent known (SessionInfo sid ps n # ms) = coherent ps ms"
| "coherent known (UserJoined u n # ms) = coherent (known @ [u]) ms"
| "coherent known (UserLeft u n # ms) =
     (info_id u \<in> info_id ` set known \<and>
      coherent (filter (\<lambda>p. info_id p \<noteq> info_id u) known) ms)"
| "coherent known (Relayed t u n b # ms) = (info_id u \<in> info_id ` set known \<and> coherent known ms)"

definition coherent_view :: "world \<Rightarrow> nat \<Rightarrow> bool" where
  "coherent_view w c = (snapshot_first w c \<and> coherent [] (delivered w c))"
















lemma calm_view_coherent:
  "coherent_view (run_steps (initial_world Map.empty (\<lambda>_. True)) calm_schedule) 2"
  by (simp add: coherent_view_def snapshot_first_def calm_schedule_run ann_def bob_def)



subsection \<open>A join that is interrupted\<close>

text \<open>
  Why the statement about a join at capacity is made for an uninterrupted \<open>connect\<close>:
  in the session of Scenario 1, let Cat's socket 3 be dead and let a chat message from
  Ann be broadcast while Cat's \<open>connect\<close> is suspended after its \<open>user_joined\<close>
  broadcast. The chat broadcast fails on socket 3 and drops it, and when \<open>connect\<close>
  has finished socket 3 is not registered.
\<close>

definition interrupted_join :: world where
  "interrupted_join =
     run_steps (standup\<lparr>socket_ok := (\<lambda>c. c \<noteq> 3)\<rparr>)
       [ConnectJoin 3 ''S'' cat ''u3'' 3, HandleMessage 1 chat_hi 4,
        ConnectRest 3 ''S'' cat ''u3'' 3]"

lemma standup_ann: "user_connections standup 1 = Some \<lparr>conn_session_id = ''S'', conn_user_info = ann\<rparr>"
  by (simp add: standup_def run_steps_def initial_world_def connect_defs
      ann_def bob_def fresh_session_def add_participant_def display_name_def new_participant_def
      del: One_nat_def)

lemma interrupted_join_unregistered:
  "members interrupted_join ''S'' = [1, 2]"
  "user_connections interrupted_join 3 = None"
  "delivered interrupted_join 3 = []"
  by (simp_all add: interrupted_join_def run_steps_def connect_defs handle_message_def Let_def
      standup_fields standup_ann chat_hi_def cat_def ann_def bob_def standup_doc_def
      add_participant_def display_name_def new_participant_def del: One_nat_def)

end
